theory Spec2Isabelle
  imports Main "HOL-Library.Word" "HOL-Library.Char_ord" "HOL-Library.List_Lexorder"
    "HOL-Library.AList"
begin

section \<open>Shared data: errors, records of the RPC layer\<close>

text \<open>
  Go errors are values. Three kinds occur in the embedded code: errors created with
  \<open>errcat.User.New\<close>/\<open>Newf\<close> (category User), plain errors (\<open>errors.New\<close>,
  \<open>fmt.Errorf\<close>, errors returned by collaborators) and gRPC status errors.
\<close>

datatype category = CatOK | CatUser | CatConfig | CatNoDaemonLogs | CatUnknown

datatype grpc_code = Canceled | NotFound | OtherCode

datatype error = UserError string | PlainError string | StatusError grpc_code string

fun GetCategory :: "error \<Rightarrow> category" where
  "GetCategory (UserError _) = CatUser"
| "GetCategory (PlainError _) = CatUnknown"
| "GetCategory (StatusError _ _) = CatUnknown"

fun error_text :: "error \<Rightarrow> string" where
  "error_text (UserError m) = m"
| "error_text (PlainError m) = m"
| "error_text (StatusError _ m) = m"

text \<open>\<open>manager.InterceptDispositionType\<close> (declared in the RPC package).\<close>

datatype InterceptDispositionType =
  UNSPECIFIED | ACTIVE | WAITING | NO_CLIENT | NO_AGENT | NO_MECHANISM | NO_PORTS
  | AGENT_ERROR | BAD_ARGS | REMOVED

text \<open>\<open>common.InterceptError\<close>: the result codes used by the embedded functions.\<close>

datatype InterceptError =
  IE_UNSPECIFIED | ALREADY_EXISTS | LOCAL_TARGET_IN_USE | MOUNT_POINT_BUSY
  | NAMESPACE_AMBIGUITY | TRAFFIC_MANAGER_ERROR | FAILED_TO_ESTABLISH
  | MISCONFIGURED_WORKLOAD

text \<open>\<open>manager.InterceptSpec\<close>, with the fields the embedded functions read or write.\<close>

record InterceptSpec =
  spec_Name :: string
  spec_Namespace :: string
  spec_Agent :: string
  spec_ContainerName :: string
  spec_ServiceName :: string
  spec_PortIdentifier :: string
  spec_TargetHost :: string
  spec_TargetPort :: "32 word"
  spec_Mechanism :: string
  spec_Replace :: bool

text \<open>\<open>manager.InterceptInfo\<close>. A Go map is an association list; a missing key reads as
  \<open>None\<close>.\<close>

record manager_InterceptInfo =
  ii_Id :: string
  ii_Spec :: InterceptSpec
  ii_Disposition :: InterceptDispositionType
  ii_Message :: string
  ii_PodIp :: string
  ii_ClientMountPoint :: string
  ii_MountPoint :: string
  ii_SftpPort :: "32 word"
  ii_FtpPort :: "32 word"
  ii_Environment :: "(string \<times> string) list"
  ii_Headers :: "(string \<times> string) list"
  ii_Metadata :: "(string \<times> string) list"

text \<open>\<open>rpc.InterceptResult\<close>; a nil \<open>InterceptInfo\<close> pointer is \<open>None\<close>.\<close>

record InterceptResult =
  res_Error :: InterceptError
  res_ErrorText :: string
  res_ErrorCategory :: category
  res_InterceptInfo :: "manager_InterceptInfo option"
  res_ServiceUid :: string
  res_WorkloadKind :: string

definition emptyResult :: InterceptResult where
  "emptyResult = \<lparr> res_Error = IE_UNSPECIFIED, res_ErrorText = [], res_ErrorCategory = CatOK,
     res_InterceptInfo = None, res_ServiceUid = [], res_WorkloadKind = [] \<rparr>"

definition InterceptError :: "InterceptError \<Rightarrow> error \<Rightarrow> InterceptResult" where
  "InterceptError tp err = emptyResult \<lparr> res_Error := tp, res_ErrorText := error_text err,
     res_ErrorCategory := GetCategory err \<rparr>"

section \<open>The client session\<close>

text \<open>
  The struct \<open>intercept\<close>. Its cancellable scope (\<open>ctx\<close>, \<open>cancel\<close>) and its wait
  group are identified by \<open>ic_scope\<close>; cancelling and waiting are effects recorded in the
  session's trace.
\<close>

record intercept =
  ic_info :: manager_InterceptInfo
  ic_scope :: nat
  ic_pid :: int
  ic_handlerContainer :: string
  ic_localMountPort :: "32 word"
  ic_readOnly :: bool

text \<open>\<open>apiMatcher\<close>: the compiled request matcher (type \<open>'m\<close>, owned by the matcher
  package) and the intercept's metadata.\<close>

record 'm apiMatcher =
  am_requestMatcher :: 'm
  am_metadata :: "(string \<times> string) list"

text \<open>\<open>restapi.InterceptInfo\<close>, the answer of the in-process query.\<close>

record restapi_InterceptInfo =
  ri_Intercepted :: bool
  ri_ClientSide :: bool
  ri_Metadata :: "(string \<times> string) list option"

text \<open>Sample data used by the concrete evaluations.\<close>

definition mkSpec :: "string \<Rightarrow> string \<Rightarrow> string \<Rightarrow> 32 word \<Rightarrow> InterceptSpec" where
  "mkSpec name ns host port = \<lparr> spec_Name = name, spec_Namespace = ns, spec_Agent = ''echo'',
     spec_ContainerName = [], spec_ServiceName = [], spec_PortIdentifier = [],
     spec_TargetHost = host, spec_TargetPort = port, spec_Mechanism = ''tcp'',
     spec_Replace = False \<rparr>"

definition mkInfo :: "string \<Rightarrow> InterceptSpec \<Rightarrow> InterceptDispositionType \<Rightarrow> manager_InterceptInfo" where
  "mkInfo k spec d = \<lparr> ii_Id = k, ii_Spec = spec, ii_Disposition = d, ii_Message = [],
     ii_PodIp = ''10.0.0.7'', ii_ClientMountPoint = [], ii_MountPoint = ''/var/run/app'',
     ii_SftpPort = 0, ii_FtpPort = 0, ii_Environment = [], ii_Headers = [],
     ii_Metadata = [] \<rparr>"

definition mkIntercept :: "nat \<Rightarrow> manager_InterceptInfo \<Rightarrow> intercept" where
  "mkIntercept sc info = \<lparr> ic_info = info, ic_scope = sc, ic_pid = 0, ic_handlerContainer = [],
     ic_localMountPort = 0, ic_readOnly = False \<rparr>"

text \<open>
  A context is described by how it was derived from the caller's context:
  \<open>context.WithTimeout\<close> bounds it, \<open>context.WithoutCancel\<close> detaches it from the
  cancellation and deadline of its parent. Durations are in milliseconds.
\<close>

datatype ctx = CallerCtx | WithTimeout ctx nat | WithoutCancel ctx

fun cancelledWithCaller :: "ctx \<Rightarrow> bool" where
  "cancelledWithCaller CallerCtx = True"
| "cancelledWithCaller (WithTimeout c d) = cancelledWithCaller c"
| "cancelledWithCaller (WithoutCancel c) = False"

fun deadlineWithin :: "ctx \<Rightarrow> nat option" where
  "deadlineWithin CallerCtx = None"
| "deadlineWithin (WithTimeout c d) =
     (case deadlineWithin c of None \<Rightarrow> Some d | Some d' \<Rightarrow> Some (min d d'))"
| "deadlineWithin (WithoutCancel c) = None"

datatype ctx_err = DeadlineExceeded | ContextCanceled

text \<open>
  \<open>podAccess\<close> as built by \<open>intercept.podAccess\<close>. The local ports (\<open>localPorts()\<close>,
  which also caches the list in the spec) take no part in the statements below and are
  left out.
\<close>

record podAccess =
  pa_scope :: nat
  pa_workload :: string
  pa_podIP :: string
  pa_container :: string
  pa_sftpPort :: "32 word"
  pa_ftpPort :: "32 word"
  pa_mountPoint :: string
  pa_clientMountPoint :: string
  pa_localMountPort :: "32 word"
  pa_readOnly :: bool

text \<open>
  Modelled from the spec: the type of the pod access tracker's keys is declared with the
  tracker, in another file of the package. The spec has: "exactly one running mount/bridge
  session keyed by (workload, pod, container, ports, mount target)".
\<close>

record podAccessKey =
  pk_workload :: string
  pk_podIP :: string
  pk_container :: string
  pk_sftpPort :: "32 word"
  pk_ftpPort :: "32 word"
  pk_mountPoint :: string

text \<open>\<open>interceptResult\<close>: what is written to a waiter's channel. \<open>ir_mountsDone\<close> is
  the readiness channel that the pod access tracker keeps for the pod access.\<close>

record interceptResult =
  ir_intercept :: intercept
  ir_mountsDone :: podAccess
  ir_err :: "error option"

text \<open>\<open>awaitIntercept\<close>; \<open>aw_waitCh\<close> refers to a channel of the session's store.\<close>

record awaitIntercept =
  aw_mountPoint :: string
  aw_mountPort :: "32 word"
  aw_readOnly :: bool
  aw_waitCh :: nat

text \<open>A buffered channel of \<open>interceptResult\<close>: capacity, pending values, closed flag.\<close>

record waitChan =
  ch_cap :: nat
  ch_buf :: "interceptResult list"
  ch_closed :: bool

text \<open>The effects of the session's functions, in the order they happen.\<close>

datatype event =
  EvNewScope nat
  | EvCancel nat
  | EvWait nat
  | EvStopContainer string
  | EvTerminate int
  | EvManagerCreate ctx InterceptSpec
  | EvManagerRemove ctx string
  | EvManagerWatch
  | EvNewPodAccessTracker
  | EvRemoveIntercept ctx string
  | EvStoreWaiter string nat
  | EvDeleteWaiter string
  | EvEnsureAccess podAccess
  | EvPatInit
  | EvPatStart podAccess
  | EvPatStop podAccessKey
  | EvPatWait podAccessKey
  | EvSend nat interceptResult
  | EvUnableToPropagate string
  | EvClose nat
  | EvLogError error
  | EvListenAndServe nat nat
  | EvCancelServer nat nat

text \<open>
  The session, as far as the embedded functions use it. The three maps are association
  lists; \<open>s_chans\<close> is the store of waiter channels and \<open>s_next\<close> the supply of fresh
  identifiers for scopes and channels. The pod access tracker \<open>pat\<close>, which
  watchInterceptsLoop creates and hands to every call of handleInterceptSnapshot, is
  threaded with the session: \<open>pat_alivePods\<close> are the keys of its running sessions and
  \<open>pat_snapshot\<close> the keys refreshed in the current pass.
\<close>

record 'm session =
  s_Namespace :: string
  s_isPodDaemon :: bool
  s_currentIntercepts :: "(string \<times> intercept) list"
  s_interceptWaiters :: "(string \<times> awaitIntercept) list"
  s_currentAPIServers :: "(nat \<times> nat) list"
  s_currentMatchers :: "(string \<times> 'm apiMatcher) list"
  s_chans :: "(nat \<times> waitChan) list"
  s_next :: nat
  s_trace :: "event list"
  pat_alivePods :: "podAccessKey list"
  pat_snapshot :: "podAccessKey list"

definition emit :: "event list \<Rightarrow> 'm session \<Rightarrow> 'm session" where
  "emit evs s = s \<lparr> s_trace := s_trace s @ evs \<rparr>"

section \<open>setCurrentIntercepts and reconcileAPIServers\<close>

text \<open>\<open>strconv.ParseUint(ps, 10, 16)\<close>: decimal digits only, at most 65535.\<close>

definition isDigit :: "char \<Rightarrow> bool" where
  "isDigit c \<longleftrightarrow> 48 \<le> (of_char c :: nat) \<and> (of_char c :: nat) \<le> 57"

definition ParseUint16 :: "string \<Rightarrow> nat option" where
  "ParseUint16 ps =
     (if ps \<noteq> [] \<and> list_all isDigit ps then
        (let v = fold (\<lambda>c n. 10 * n + (of_char c - 48)) ps 0
         in if v \<le> 65535 then Some v else None)
      else None)"

text \<open>\<open>agentconfig.EnvAPIPort\<close>, the variable named in the comment of reconcileAPIServers.\<close>

definition EnvAPIPort :: string where
  "EnvAPIPort = ''TELEPRESENCE_API_PORT''"

text \<open>The closure \<open>agentAPIPort\<close>: the port, and the error it logs when the value does
  not parse.\<close>

definition agentAPIPort :: "manager_InterceptInfo \<Rightarrow> nat \<times> event list" where
  "agentAPIPort ii =
     (case map_of (ii_Environment ii) EnvAPIPort of
        None \<Rightarrow> (0, [])
      | Some ps \<Rightarrow>
          (case ParseUint16 ps of
             Some port \<Rightarrow> (port, [])
           | None \<Rightarrow> (0, [EvLogError (PlainError (''unable to parse TELEPRESENCE_API_PORT('' @ ps
                         @ '') to a port number in agent '' @ spec_Agent (ii_Spec ii) @ ''.''
                         @ spec_Namespace (ii_Spec ii)))])))"

text \<open>The first loop of reconcileAPIServers: the wanted ports and matchers, and the
  errors logged on the way.\<close>

fun wanted ::
  "(string \<times> intercept) list \<Rightarrow> nat list \<times> (string \<times> manager_InterceptInfo) list \<times> event list" where
  "wanted [] = ([], [], [])"
| "wanted ((k, ic) # rest) =
     (case wanted rest of (ports, matchers, logs) \<Rightarrow>
        if ii_Disposition (ic_info ic) = ACTIVE then
          (case agentAPIPort (ic_info ic) of (port, l) \<Rightarrow>
             if port > 0
             then (List.insert port ports, AList.update (ii_Id (ic_info ic)) (ic_info ic) matchers, l @ logs)
             else (ports, matchers, l @ logs))
        else (ports, matchers, logs))"

text \<open>The second loop: cancel and delete every server whose port is not wanted.\<close>

fun stopServers :: "nat list \<Rightarrow> (nat \<times> nat) list \<Rightarrow> (nat \<times> nat) list \<times> event list" where
  "stopServers wantedPorts [] = ([], [])"
| "stopServers wantedPorts ((p, sc) # rest) =
     (case stopServers wantedPorts rest of (kept, evs) \<Rightarrow>
        if p \<in> set wantedPorts then ((p, sc) # kept, evs)
        else (kept, EvCancelServer p sc # evs))"

text \<open>The third loop, with \<open>newAPIServerForPort\<close>: a server under a fresh cancellable
  scope for every wanted port that has none.\<close>

fun startServers :: "nat list \<Rightarrow> 'm session \<Rightarrow> 'm session" where
  "startServers [] s = s"
| "startServers (p # ps) s =
     (if map_of (s_currentAPIServers s) p = None
      then startServers ps
             (s \<lparr> s_currentAPIServers := AList.update p (s_next s) (s_currentAPIServers s),
                  s_next := Suc (s_next s),
                  s_trace := s_trace s @ [EvListenAndServe p (s_next s)] \<rparr>)
      else startServers ps s)"

text \<open>The fifth loop, with \<open>newMatcher\<close>; \<open>NewRequestFromMap\<close> belongs to the matcher
  package.\<close>

fun startMatchers ::
  "((string \<times> string) list \<Rightarrow> error + 'm) \<Rightarrow> (string \<times> manager_InterceptInfo) list
    \<Rightarrow> 'm session \<Rightarrow> 'm session" where
  "startMatchers NewRequestFromMap [] s = s"
| "startMatchers NewRequestFromMap ((k, ii) # rest) s =
     (if map_of (s_currentMatchers s) k = None then
        (case NewRequestFromMap (ii_Headers ii) of
           Inl err \<Rightarrow> startMatchers NewRequestFromMap rest (emit [EvLogError err] s)
         | Inr m \<Rightarrow>
             startMatchers NewRequestFromMap rest
               (s \<lparr> s_currentMatchers := AList.update (ii_Id ii)
                       \<lparr> am_requestMatcher = m, am_metadata = ii_Metadata ii \<rparr> (s_currentMatchers s) \<rparr>))
      else startMatchers NewRequestFromMap rest s)"

definition reconcileAPIServers ::
  "((string \<times> string) list \<Rightarrow> error + 'm) \<Rightarrow> 'm session \<Rightarrow> 'm session" where
  "reconcileAPIServers NewRequestFromMap s =
     (case wanted (s_currentIntercepts s) of (wantedPorts, wantedMatchers, logs) \<Rightarrow>
      case stopServers wantedPorts (s_currentAPIServers s) of (servers, stops) \<Rightarrow>
        startMatchers NewRequestFromMap wantedMatchers
          ((startServers wantedPorts
              (s \<lparr> s_currentAPIServers := servers, s_trace := s_trace s @ logs @ stops \<rparr>))
           \<lparr> s_currentMatchers :=
               filter (\<lambda>(k, m). map_of wantedMatchers k \<noteq> None) (s_currentMatchers s) \<rparr>))"

text \<open>
  The first loop of setCurrentIntercepts: \<open>intercepts\<close> is the map under construction,
  \<open>s\<close> the session, read for the old map and the waiters and written for the new scopes.
\<close>

fun buildIntercepts ::
  "manager_InterceptInfo list \<Rightarrow> (string \<times> intercept) list \<Rightarrow> 'm session
    \<Rightarrow> (string \<times> intercept) list \<times> 'm session" where
  "buildIntercepts [] intercepts s = (intercepts, s)"
| "buildIntercepts (ii # iis) intercepts s =
     (case map_of (s_currentIntercepts s) (ii_Id ii) of
        Some ic \<Rightarrow>
          buildIntercepts iis
            (AList.update (ii_Id ii)
               (ic \<lparr> ic_info := ii \<lparr> ii_ClientMountPoint := ii_ClientMountPoint (ic_info ic) \<rparr> \<rparr>)
               intercepts) s
      | None \<Rightarrow>
          (let ic = \<lparr> ic_info = ii, ic_scope = s_next s, ic_pid = 0, ic_handlerContainer = [],
                      ic_localMountPort = 0, ic_readOnly = False \<rparr>;
               ic' = (case map_of (s_interceptWaiters s) (spec_Name (ii_Spec ii)) of
                        Some aw \<Rightarrow> ic \<lparr> ic_info := ii \<lparr> ii_ClientMountPoint := aw_mountPoint aw \<rparr>,
                                         ic_localMountPort := aw_mountPort aw,
                                         ic_readOnly := aw_readOnly aw \<rparr>
                      | None \<Rightarrow> ic)
           in buildIntercepts iis (AList.update (ii_Id ii) ic' intercepts)
                (s \<lparr> s_next := Suc (s_next s), s_trace := s_trace s @ [EvNewScope (s_next s)] \<rparr>)))"

text \<open>The second loop: cancel the scope of every old entry whose id is not in the new map.\<close>

fun cancelGone :: "(string \<times> intercept) list \<Rightarrow> (string \<times> intercept) list \<Rightarrow> event list" where
  "cancelGone intercepts [] = []"
| "cancelGone intercepts ((k, ic) # rest) =
     (if map_of intercepts k = None then EvCancel (ic_scope ic) # cancelGone intercepts rest
      else cancelGone intercepts rest)"

definition setCurrentIntercepts ::
  "((string \<times> string) list \<Rightarrow> error + 'm) \<Rightarrow> manager_InterceptInfo list \<Rightarrow> 'm session \<Rightarrow> 'm session" where
  "setCurrentIntercepts NewRequestFromMap iis s =
     (case buildIntercepts iis [] s of (intercepts, s1) \<Rightarrow>
        reconcileAPIServers NewRequestFromMap
          (s1 \<lparr> s_trace := s_trace s1 @ cancelGone intercepts (s_currentIntercepts s),
                s_currentIntercepts := intercepts \<rparr>))"

section \<open>handleInterceptSnapshot\<close>

text \<open>A Go panic is a value of its own.\<close>

datatype panic = NilPointerDereference | SendOnClosedChannel

text \<open>\<open>%v\<close> of a disposition prints its name.\<close>

fun dispositionName :: "InterceptDispositionType \<Rightarrow> string" where
  "dispositionName UNSPECIFIED = ''UNSPECIFIED''"
| "dispositionName ACTIVE = ''ACTIVE''"
| "dispositionName WAITING = ''WAITING''"
| "dispositionName NO_CLIENT = ''NO_CLIENT''"
| "dispositionName NO_AGENT = ''NO_AGENT''"
| "dispositionName NO_MECHANISM = ''NO_MECHANISM''"
| "dispositionName NO_PORTS = ''NO_PORTS''"
| "dispositionName AGENT_ERROR = ''AGENT_ERROR''"
| "dispositionName BAD_ARGS = ''BAD_ARGS''"
| "dispositionName REMOVED = ''REMOVED''"

text \<open>\<open>intercept.podAccess\<close> without its effect \<open>ensureAccess\<close>, which the caller
  records.\<close>

definition podAccessOf :: "intercept \<Rightarrow> podAccess" where
  "podAccessOf ic =
     \<lparr> pa_scope = ic_scope ic,
       pa_workload = spec_Agent (ii_Spec (ic_info ic)),
       pa_podIP = ii_PodIp (ic_info ic),
       pa_container = spec_ContainerName (ii_Spec (ic_info ic)),
       pa_sftpPort = ii_SftpPort (ic_info ic),
       pa_ftpPort = ii_FtpPort (ic_info ic),
       pa_mountPoint = ii_MountPoint (ic_info ic),
       pa_clientMountPoint = ii_ClientMountPoint (ic_info ic),
       pa_localMountPort = ic_localMountPort ic,
       pa_readOnly = ic_readOnly ic \<rparr>"

text \<open>The error that a record out of WAITING carries to its waiter.\<close>

definition snapshotError :: "'m session \<Rightarrow> manager_InterceptInfo \<Rightarrow> error option" where
  "snapshotError s ii =
     (if ii_Disposition ii = ACTIVE then
        (if s_Namespace s \<noteq> spec_Namespace (ii_Spec ii)
         then Some (UserError (''active intercepts in both namespace '' @ spec_Namespace (ii_Spec ii)
                      @ '' and '' @ s_Namespace s))
         else None)
      else Some (PlainError (''intercept in error state '' @ dispositionName (ii_Disposition ii)
                   @ '': '' @ ii_Message ii)))"

text \<open>
  The \<open>select\<close> with a \<open>default\<close> branch that sends \<open>ir\<close> on the waiter's channel. A
  channel that is \<open>nil\<close> (no entry in the store) or whose buffer is full cannot take the
  value: the default branch logs. A send on a closed channel panics. The Boolean says
  whether the value was sent.
\<close>

definition trySend ::
  "string \<Rightarrow> nat \<Rightarrow> interceptResult \<Rightarrow> 'm session \<Rightarrow> panic + bool \<times> 'm session" where
  "trySend k ch ir s =
     (case map_of (s_chans s) ch of
        None \<Rightarrow> Inr (False, emit [EvUnableToPropagate k] s)
      | Some c \<Rightarrow>
          if ch_closed c then Inl SendOnClosedChannel
          else if length (ch_buf c) < ch_cap c then
            Inr (True, emit [EvSend ch ir]
                         (s \<lparr> s_chans := AList.update ch (c \<lparr> ch_buf := ch_buf c @ [ir] \<rparr>) (s_chans s) \<rparr>))
          else Inr (False, emit [EvUnableToPropagate k] s))"

text \<open>
  Modelled from the spec: the key that the tracker computes for a pod access; the function
  is defined with the tracker, in another file of the package. The spec has: "for each
  active record, compute its access key", the key being "(workload, pod, container, ports,
  mount target)".
\<close>

definition accessKey :: "podAccess \<Rightarrow> podAccessKey" where
  "accessKey pa =
     \<lparr> pk_workload = pa_workload pa, pk_podIP = pa_podIP pa, pk_container = pa_container pa,
       pk_sftpPort = pa_sftpPort pa, pk_ftpPort = pa_ftpPort pa,
       pk_mountPoint = pa_clientMountPoint pa \<rparr>"

text \<open>
  Modelled from the spec: \<open>newPodAccessTracker\<close> is defined in another file of the
  package. A new tracker has no session and no refresh mark.
\<close>

definition newPodAccessTracker :: "'m session \<Rightarrow> 'm session" where
  "newPodAccessTracker s = emit [EvNewPodAccessTracker] (s \<lparr> pat_alivePods := [], pat_snapshot := [] \<rparr>)"

text \<open>
  Modelled from the spec: \<open>podAccessTracker.initSnapshot\<close> is defined in another file of
  the package. The spec has: "\<open>initSnapshot()\<close> resets the refresh marks".
\<close>

definition initSnapshot :: "'m session \<Rightarrow> 'm session" where
  "initSnapshot s = emit [EvPatInit] (s \<lparr> pat_snapshot := [] \<rparr>)"

text \<open>
  Modelled from the spec: \<open>podAccessTracker.start\<close> is defined in another file of the
  package. The spec has: "compute its access key, and if unseen this pass, reuse or start a
  session and mark it refreshed". Starting the mount or bridge session is the effect
  \<open>EvPatStart\<close>.
\<close>

definition start :: "podAccess \<Rightarrow> 'm session \<Rightarrow> 'm session" where
  "start pa s =
     (let k = accessKey pa in
      if k \<in> set (pat_snapshot s) then s
      else if k \<in> set (pat_alivePods s) then s \<lparr> pat_snapshot := k # pat_snapshot s \<rparr>
      else emit [EvPatStart pa]
             (s \<lparr> pat_snapshot := k # pat_snapshot s, pat_alivePods := pat_alivePods s @ [k] \<rparr>))"

text \<open>
  Modelled from the spec: the sessions that \<open>cancelUnwanted\<close> stops, "every session not
  marked refreshed"; the tracker is defined in another file of the package.
\<close>

definition unwanted :: "'m session \<Rightarrow> podAccessKey list" where
  "unwanted s = filter (\<lambda>k. k \<notin> set (pat_snapshot s)) (pat_alivePods s)"

text \<open>
  Modelled from the spec: \<open>podAccessTracker.cancelUnwanted\<close> is defined in another file
  of the package. The spec has: "\<open>cancelUnwanted()\<close> at the end of the pass stops every
  session not marked refreshed", where a stop "releases all resources synchronously or
  signal[s] completion to a wait mechanism the core can block on", so that "every dropped
  record's resources are released before the reconciler proceeds to the next snapshot".
  Stopping a session is the effect \<open>EvPatStop\<close>, waiting until it has released its
  resources the effect \<open>EvPatWait\<close>.
\<close>

definition cancelUnwanted :: "'m session \<Rightarrow> 'm session" where
  "cancelUnwanted s =
     emit (concat (map (\<lambda>k. [EvPatStop k, EvPatWait k]) (unwanted s)))
       (s \<lparr> pat_alivePods := filter (\<lambda>k. k \<in> set (pat_snapshot s)) (pat_alivePods s) \<rparr>)"

text \<open>The rest of the loop body after the waiter was served: log the error, or hand the
  pod access to the tracker (\<open>pat.start(pa)\<close>).\<close>

definition startAccess :: "error option \<Rightarrow> podAccess \<Rightarrow> 'm session \<Rightarrow> 'm session" where
  "startAccess err pa s =
     (case err of
        Some e \<Rightarrow> emit [EvLogError e] s
      | None \<Rightarrow>
          start (if s_isPodDaemon s then pa \<lparr> pa_ftpPort := 0, pa_sftpPort := 0 \<rparr> else pa) s)"

text \<open>The key under which the loop of handleInterceptSnapshot hands an intercept to the
  tracker.\<close>

definition trackedKey :: "'m session \<Rightarrow> intercept \<Rightarrow> podAccessKey" where
  "trackedKey s ic =
     accessKey (if s_isPodDaemon s then (podAccessOf ic) \<lparr> pa_ftpPort := 0, pa_sftpPort := 0 \<rparr>
                else podAccessOf ic)"

text \<open>One iteration of the loop over the snapshot, for a record that is not WAITING.\<close>

definition snapshotStep :: "manager_InterceptInfo \<Rightarrow> 'm session \<Rightarrow> panic + 'm session" where
  "snapshotStep ii s =
     (case map_of (s_currentIntercepts s) (ii_Id ii) of
        None \<Rightarrow> Inl NilPointerDereference
      | Some ic \<Rightarrow>
          (let name = spec_Name (ii_Spec ii);
               aw = map_of (s_interceptWaiters s) name;
               s1 = (if aw \<noteq> None
                     then emit [EvDeleteWaiter name]
                            (s \<lparr> s_interceptWaiters := AList.delete name (s_interceptWaiters s) \<rparr>)
                     else s);
               err = snapshotError s ii;
               pa = podAccessOf ic;
               s2 = emit [EvEnsureAccess pa] s1
           in case aw of
                None \<Rightarrow> Inr (startAccess err pa s2)
              | Some w \<Rightarrow>
                  (case trySend (ii_Id ii) (aw_waitCh w)
                          \<lparr> ir_intercept = ic, ir_mountsDone = pa, ir_err = err \<rparr> s2 of
                     Inl p \<Rightarrow> Inl p
                   | Inr (sent, s3) \<Rightarrow>
                       if sent \<and> err \<noteq> None then Inr s3
                       else Inr (startAccess err pa s3))))"

fun snapshotLoop :: "manager_InterceptInfo list \<Rightarrow> 'm session \<Rightarrow> panic + 'm session" where
  "snapshotLoop [] s = Inr s"
| "snapshotLoop (ii # iis) s =
     (if ii_Disposition ii = WAITING then snapshotLoop iis s
      else (case snapshotStep ii s of
              Inl p \<Rightarrow> Inl p
            | Inr s' \<Rightarrow> snapshotLoop iis s'))"

text \<open>\<open>handleInterceptSnapshot\<close>: the new set, then one pass of the tracker over the
  records of the snapshot.\<close>

definition handleInterceptSnapshot ::
  "((string \<times> string) list \<Rightarrow> error + 'm) \<Rightarrow> manager_InterceptInfo list \<Rightarrow> 'm session
    \<Rightarrow> panic + 'm session" where
  "handleInterceptSnapshot NewRequestFromMap intercepts s =
     (case snapshotLoop intercepts (initSnapshot (setCurrentIntercepts NewRequestFromMap intercepts s)) of
        Inl p \<Rightarrow> Inl p
      | Inr s' \<Rightarrow> Inr (cancelUnwanted s'))"

text \<open>The kinds of effect that occur in one call of handleInterceptSnapshot.\<close>

fun reconcilerEvent :: "event \<Rightarrow> bool" where
  "reconcilerEvent (EvNewScope sc) = True"
| "reconcilerEvent (EvCancel sc) = True"
| "reconcilerEvent (EvEnsureAccess pa) = True"
| "reconcilerEvent EvPatInit = True"
| "reconcilerEvent (EvPatStart pa) = True"
| "reconcilerEvent (EvPatStop k) = True"
| "reconcilerEvent (EvPatWait k) = True"
| "reconcilerEvent (EvSend ch wr) = True"
| "reconcilerEvent (EvUnableToPropagate k) = True"
| "reconcilerEvent (EvDeleteWaiter name) = True"
| "reconcilerEvent (EvLogError err) = True"
| "reconcilerEvent (EvListenAndServe p sc) = True"
| "reconcilerEvent (EvCancelServer p sc) = True"
| "reconcilerEvent e = False"

text \<open>The kinds of effect of setCurrentIntercepts and reconcileAPIServers alone.\<close>

fun setEvent :: "event \<Rightarrow> bool" where
  "setEvent (EvNewScope sc) = True"
| "setEvent (EvCancel sc) = True"
| "setEvent (EvLogError err) = True"
| "setEvent (EvListenAndServe p sc) = True"
| "setEvent (EvCancelServer p sc) = True"
| "setEvent e = False"

text \<open>For the statements about delivery: the number of values sent on a channel, and the
  number of registered waiters that refer to it.\<close>

fun sendsTo :: "nat \<Rightarrow> event list \<Rightarrow> nat" where
  "sendsTo ch [] = 0"
| "sendsTo ch (EvSend ch' wr # evs) = (if ch' = ch then Suc (sendsTo ch evs) else sendsTo ch evs)"
| "sendsTo ch (e # evs) = sendsTo ch evs"

definition waitersOn :: "nat \<Rightarrow> (string \<times> awaitIntercept) list \<Rightarrow> nat" where
  "waitersOn ch ws = length (filter (\<lambda>(name, w). aw_waitCh w = ch) ws)"

section \<open>removeIntercept and RemoveIntercept\<close>

text \<open>
  \<open>stopHandler\<close>. \<open>canStop\<close> is the negation of "running in a container with the root
  session in process". Stopping the container or terminating the process are effects;
  their errors are only logged.
\<close>

definition stopHandler :: "bool \<Rightarrow> string \<Rightarrow> int \<Rightarrow> 'm session \<Rightarrow> 'm session" where
  "stopHandler canStop handlerContainer pid s =
     (if canStop then
        (if handlerContainer \<noteq> [] then emit [EvStopContainer handlerContainer] s
         else if pid \<noteq> 0 then emit [EvTerminate pid] s
         else s)
      else s)"

text \<open>\<open>removeIntercept\<close>; \<open>apiTimeout\<close> is the configured traffic-manager API timeout and
  \<open>mgrErr\<close> the outcome of the manager's RemoveIntercept call.\<close>

definition removeIntercept ::
  "bool \<Rightarrow> nat \<Rightarrow> error option \<Rightarrow> ctx \<Rightarrow> intercept \<Rightarrow> 'm session \<Rightarrow> error option \<times> 'm session" where
  "removeIntercept canStop apiTimeout mgrErr c ic s =
     (let name = spec_Name (ii_Spec (ic_info ic));
          s1 = stopHandler canStop (ic_handlerContainer ic) (ic_pid ic) s
      in (mgrErr, emit [EvCancel (ic_scope ic), EvWait (ic_scope ic),
                        EvManagerRemove (WithTimeout c apiTimeout) name] s1))"

fun getInterceptByName :: "string \<Rightarrow> (string \<times> intercept) list \<Rightarrow> intercept option" where
  "getInterceptByName name [] = None"
| "getInterceptByName name ((k, ic) # rest) =
     (if spec_Name (ii_Spec (ic_info ic)) = name then Some ic else getInterceptByName name rest)"

definition RemoveIntercept ::
  "bool \<Rightarrow> nat \<Rightarrow> error option \<Rightarrow> ctx \<Rightarrow> string \<Rightarrow> 'm session \<Rightarrow> error option \<times> 'm session" where
  "RemoveIntercept canStop apiTimeout mgrErr c name s =
     (case getInterceptByName name (s_currentIntercepts s) of
        None \<Rightarrow> (None, emit [EvRemoveIntercept c name] s)
      | Some ic \<Rightarrow> removeIntercept canStop apiTimeout mgrErr c ic (emit [EvRemoveIntercept c name] s))"

section \<open>AddIntercept: waiter registration, wait loop, deferred cleanup\<close>

text \<open>\<open>rpc.CreateInterceptRequest\<close>.\<close>

record CreateInterceptRequest =
  cir_Spec :: InterceptSpec
  cir_MountPoint :: string
  cir_LocalMountPort :: "32 word"
  cir_MountReadOnly :: bool

text \<open>Lines 453 to 461: a channel with a buffer of two, and the waiter stored under the
  intercept's name.\<close>

definition registerWaiter :: "CreateInterceptRequest \<Rightarrow> 'm session \<Rightarrow> nat \<times> 'm session" where
  "registerWaiter ir s =
     (let waitCh = s_next s
      in (waitCh,
          emit [EvStoreWaiter (spec_Name (cir_Spec ir)) waitCh]
            (s \<lparr> s_chans := AList.update waitCh \<lparr> ch_cap = 2, ch_buf = [], ch_closed = False \<rparr> (s_chans s),
                 s_next := Suc (s_next s),
                 s_interceptWaiters :=
                   AList.update (spec_Name (cir_Spec ir))
                     \<lparr> aw_mountPoint = cir_MountPoint ir, aw_mountPort = cir_LocalMountPort ir,
                       aw_readOnly = cir_MountReadOnly ir, aw_waitCh = waitCh \<rparr>
                     (s_interceptWaiters s) \<rparr>)))"

text \<open>The deferred function of lines 462 to 469.\<close>

definition unregisterWaiter :: "string \<Rightarrow> nat \<Rightarrow> 'm session \<Rightarrow> 'm session" where
  "unregisterWaiter name waitCh s =
     (if map_of (s_interceptWaiters s) name \<noteq> None then
        emit [EvDeleteWaiter name, EvClose waitCh]
          (s \<lparr> s_interceptWaiters := AList.delete name (s_interceptWaiters s),
               s_chans := (case map_of (s_chans s) waitCh of
                             Some c \<Rightarrow> AList.update waitCh (c \<lparr> ch_closed := True \<rparr>) (s_chans s)
                           | None \<Rightarrow> s_chans s) \<rparr>)
      else s)"

text \<open>
  What the two \<open>select\<close> statements of the wait loop receive. The outer one takes, per
  iteration, the context being done or a value from \<open>waitCh\<close>; the inner one, reached
  at most once, the context being done or the closing of \<open>mountsDone\<close> (\<open>None\<close>: neither
  happens).
\<close>

datatype select_outcome = Done ctx_err | Notified interceptResult

datatype mounts_outcome = MountsDone | MountsCtxDone ctx_err

text \<open>
  The wait loop (lines 496 to 521). \<open>CheckTimeout\<close> belongs to the client package;
  \<open>InterceptEpilog\<close> is called through \<open>self\<close>. The result is the returned
  \<open>InterceptResult\<close>, the flag \<open>success\<close> and the variable \<open>ii\<close> as the deferred
  function will read them; \<open>None\<close> when the loop is still waiting.
\<close>

fun waitLoop ::
  "(ctx_err \<Rightarrow> error) \<Rightarrow> (InterceptResult \<Rightarrow> InterceptResult option) \<Rightarrow> manager_InterceptInfo
    \<Rightarrow> InterceptResult \<Rightarrow> select_outcome list \<Rightarrow> mounts_outcome option
    \<Rightarrow> (InterceptResult \<times> bool \<times> manager_InterceptInfo) option" where
  "waitLoop CheckTimeout InterceptEpilog ii result [] mounts = None"
| "waitLoop CheckTimeout InterceptEpilog ii result (Done e # rest) mounts =
     Some (InterceptError FAILED_TO_ESTABLISH (CheckTimeout e), False, ii)"
| "waitLoop CheckTimeout InterceptEpilog ii result (Notified wr # rest) mounts =
     (case ir_err wr of
        Some err \<Rightarrow> Some (InterceptError FAILED_TO_ESTABLISH err, False, ii)
      | None \<Rightarrow>
          (let ii' = ic_info (ir_intercept wr) in
           if ii_Disposition ii' \<noteq> ACTIVE
           then waitLoop CheckTimeout InterceptEpilog ii' result rest mounts
           else (case mounts of
                   None \<Rightarrow> None
                 | Some (MountsCtxDone e) \<Rightarrow>
                     Some (InterceptError FAILED_TO_ESTABLISH (CheckTimeout e), False, ii')
                 | Some MountsDone \<Rightarrow>
                     (case InterceptEpilog (result \<lparr> res_InterceptInfo := Some ii' \<rparr>) of
                        Some er \<Rightarrow> Some (er, False, ii')
                      | None \<Rightarrow> Some (result \<lparr> res_InterceptInfo := Some ii' \<rparr>, True, ii')))))"

text \<open>\<open>session.InterceptEpilog\<close> as the session defines it.\<close>

definition InterceptEpilog :: "InterceptResult \<Rightarrow> InterceptResult option" where
  "InterceptEpilog result = None"

text \<open>The context of the deferred removal: five seconds, detached from the context of the
  call.\<close>

definition removalCtx :: "ctx \<Rightarrow> ctx" where
  "removalCtx c = WithTimeout (WithoutCancel c) 5000"

text \<open>
  \<open>AddIntercept\<close> from the registration of the waiter on; CanIntercept and the completion
  of the spec come before and give \<open>ir\<close> (with the completed spec) and \<open>result\<close>.
  \<open>interceptTimeout\<close> and \<open>apiTimeout\<close> are configured durations, \<open>created\<close> the outcome
  of the manager's CreateIntercept call, \<open>removed\<close> that of its RemoveIntercept call.
  \<open>reconciler\<close> is what the goroutine of watchInterceptsLoop did to the session between
  the create request and the return of the call.
\<close>

definition AddIntercept ::
  "(ctx_err \<Rightarrow> error) \<Rightarrow> (InterceptResult \<Rightarrow> InterceptResult option) \<Rightarrow> bool \<Rightarrow> nat \<Rightarrow> nat
    \<Rightarrow> CreateInterceptRequest \<Rightarrow> InterceptResult \<Rightarrow> error + manager_InterceptInfo
    \<Rightarrow> ('m session \<Rightarrow> 'm session) \<Rightarrow> select_outcome list \<Rightarrow> mounts_outcome option
    \<Rightarrow> error option \<Rightarrow> 'm session \<Rightarrow> (InterceptResult \<times> 'm session) option" where
  "AddIntercept CheckTimeout epilog canStop interceptTimeout apiTimeout ir result created
      reconciler outcomes mounts removed s =
     (let c = WithTimeout CallerCtx interceptTimeout;
          name = spec_Name (cir_Spec ir)
      in case registerWaiter ir s of (waitCh, s1) \<Rightarrow>
         (let s2 = reconciler (emit [EvManagerCreate c (cir_Spec ir)] s1)
          in case created of
               Inl err \<Rightarrow> Some (InterceptError TRAFFIC_MANAGER_ERROR err, unregisterWaiter name waitCh s2)
             | Inr ii \<Rightarrow>
                 (case waitLoop CheckTimeout epilog ii result outcomes mounts of
                    None \<Rightarrow> None
                  | Some (res, success, ii') \<Rightarrow>
                      Some (res,
                            unregisterWaiter name waitCh
                              (if success then s2
                               else snd (RemoveIntercept canStop apiTimeout removed (removalCtx c)
                                           (spec_Name (ii_Spec ii')) s2))))))"

text \<open>A notification that the wait loop passes over: no error and a disposition other
  than ACTIVE.\<close>

definition passedOver :: "interceptResult \<Rightarrow> bool" where
  "passedOver wr \<longleftrightarrow> ir_err wr = None \<and> ii_Disposition (ic_info (ir_intercept wr)) \<noteq> ACTIVE"

text \<open>The variable \<open>ii\<close> after a run of such notifications.\<close>

definition lastInfo :: "manager_InterceptInfo \<Rightarrow> interceptResult list \<Rightarrow> manager_InterceptInfo" where
  "lastInfo ii wrs = (if wrs = [] then ii else ic_info (ir_intercept (last wrs)))"

section \<open>watchInterceptsLoop and watchInterceptsHandler\<close>

text \<open>
  What the stream loop meets: the session context being cancelled, a snapshot received,
  or \<open>Recv\<close> failing, with a clean end of stream (\<open>io.EOF\<close>) or another error.
\<close>

datatype recv_err = EOF | RecvFailed string

datatype stream_item = CtxCancelled | Snapshot "manager_InterceptInfo list" | RecvError recv_err

text \<open>
  The \<open>for\<close> loop of watchInterceptsLoop, blocked in \<open>stream.Recv()\<close>; \<open>done\<close> says
  whether the context has been cancelled meanwhile. \<open>None\<close>: still blocked when the items
  end.
\<close>

fun recvLoop ::
  "((string \<times> string) list \<Rightarrow> error + 'm) \<Rightarrow> bool \<Rightarrow> stream_item list \<Rightarrow> 'm session
    \<Rightarrow> (panic + error option \<times> 'm session) option" where
  "recvLoop nrm done [] s = None"
| "recvLoop nrm done (CtxCancelled # rest) s = recvLoop nrm True rest s"
| "recvLoop nrm done (Snapshot intercepts # rest) s =
     (case handleInterceptSnapshot nrm intercepts s of
        Inl p \<Rightarrow> Some (Inl p)
      | Inr s' \<Rightarrow> if done then Some (Inr (None, s')) else recvLoop nrm done rest s')"
| "recvLoop nrm done (RecvError err # rest) s =
     (case handleInterceptSnapshot nrm [] s of
        Inl p \<Rightarrow> Some (Inl p)
      | Inr s' \<Rightarrow>
          if done \<or> err = EOF then Some (Inr (None, s'))
          else Some (Inr (Some (PlainError (''manager.WatchIntercepts recv: ''
                        @ (case err of RecvFailed m \<Rightarrow> m | EOF \<Rightarrow> ''EOF''))), s')))"

text \<open>One run of watchInterceptsLoop: the outcome of opening the stream and the items it
  then meets.\<close>

record attempt =
  at_dialErr :: "error option"
  at_items :: "stream_item list"

definition watchInterceptsLoop ::
  "((string \<times> string) list \<Rightarrow> error + 'm) \<Rightarrow> attempt \<Rightarrow> 'm session
    \<Rightarrow> (panic + error option \<times> 'm session) option" where
  "watchInterceptsLoop nrm a s =
     (case at_dialErr a of
        Some err \<Rightarrow>
          Some (Inr (Some (PlainError (''manager.WatchIntercepts dial: '' @ error_text err)),
                     emit [EvManagerWatch] s))
      | None \<Rightarrow> recvLoop nrm False (at_items a) (newPodAccessTracker (emit [EvManagerWatch] s)))"

text \<open>
  Modelled from the spec: \<open>runWithRetry\<close> is defined in another file of the package. The
  spec has: "either terminate (clean end-of-stream while the session is ending) or
  reconnect and retry indefinitely (any other error)". A run that returns nil ends the
  handler; a run that returns an error is logged and followed by the next run. \<open>None\<close>:
  the handler is still running when the attempts end.
\<close>

fun runWithRetry ::
  "(attempt \<Rightarrow> 'm session \<Rightarrow> (panic + error option \<times> 'm session) option) \<Rightarrow> attempt list
    \<Rightarrow> 'm session \<Rightarrow> (panic + 'm session) option" where
  "runWithRetry f [] s = None"
| "runWithRetry f (a # as) s =
     (case f a s of
        None \<Rightarrow> None
      | Some (Inl p) \<Rightarrow> Some (Inl p)
      | Some (Inr (None, s')) \<Rightarrow> Some (Inr s')
      | Some (Inr (Some err, s')) \<Rightarrow> runWithRetry f as (emit [EvLogError err] s'))"

definition watchInterceptsHandler ::
  "((string \<times> string) list \<Rightarrow> error + 'm) \<Rightarrow> attempt list \<Rightarrow> 'm session
    \<Rightarrow> (panic + 'm session) option" where
  "watchInterceptsHandler nrm attempts s = runWithRetry (watchInterceptsLoop nrm) attempts s"

text \<open>Sample data for the concrete evaluations of the session.\<close>

definition noMatcher :: "(string \<times> string) list \<Rightarrow> error + unit" where
  "noMatcher headers = Inr ()"

definition mkSession :: "(string \<times> intercept) list \<Rightarrow> unit session" where
  "mkSession cur = \<lparr> s_Namespace = ''default'', s_isPodDaemon = False, s_currentIntercepts = cur,
     s_interceptWaiters = [], s_currentAPIServers = [], s_currentMatchers = [], s_chans = [],
     s_next = 10, s_trace = [], pat_alivePods = [], pat_snapshot = [] \<rparr>"

definition sampleRequest :: "string \<Rightarrow> CreateInterceptRequest" where
  "sampleRequest name = \<lparr> cir_Spec = mkSpec name ''default'' ''127.0.0.1'' 8080,
     cir_MountPoint = ''/tmp/mnt'', cir_LocalMountPort = 0, cir_MountReadOnly = False \<rparr>"

definition sampleCheckTimeout :: "ctx_err \<Rightarrow> error" where
  "sampleCheckTimeout e =
     (if e = DeadlineExceeded then UserError ''the intercept timed out''
      else PlainError ''context canceled'')"

definition sampleInfo :: "InterceptDispositionType \<Rightarrow> manager_InterceptInfo" where
  "sampleInfo d = mkInfo ''i1'' (mkSpec ''a'' ''default'' ''127.0.0.1'' 8080) d"

definition sampleNotification :: "InterceptDispositionType \<Rightarrow> error option \<Rightarrow> interceptResult" where
  "sampleNotification d err = \<lparr> ir_intercept = mkIntercept 11 (sampleInfo d),
     ir_mountsDone = podAccessOf (mkIntercept 11 (sampleInfo d)), ir_err = err \<rparr>"

text \<open>A reconciler that has meanwhile received the new record, still WAITING.\<close>

definition sampleReconciler :: "unit session \<Rightarrow> unit session" where
  "sampleReconciler s = s \<lparr> s_currentIntercepts := [(''i1'', mkIntercept 11 (sampleInfo WAITING))] \<rparr>"

text \<open>A call of AddIntercept that has given up: the deadline passed while the record was
  still WAITING.\<close>

definition sampleGaveUp :: "unit session" where
  "sampleGaveUp =
     (case AddIntercept sampleCheckTimeout InterceptEpilog True 30000 15000 (sampleRequest ''a'')
             emptyResult (Inr (sampleInfo WAITING)) sampleReconciler [Done DeadlineExceeded] None None
             (mkSession []) of
        Some (res, s') \<Rightarrow> s'
      | None \<Rightarrow> mkSession [])"

section \<open>InterceptInfo: the in-process intercept query\<close>

text \<open>
  \<open>session.InterceptInfo\<close> reads \<open>currentMatchers\<close> only. The result pair is Go's
  \<open>(*restapi.InterceptInfo, error)\<close>: \<open>None\<close> in the first component is a nil pointer,
  \<open>None\<close> in the second a nil error. \<open>Matches\<close> is the matcher package's
  \<open>Request.Matches\<close>; the debug log lines are not modelled.
\<close>

definition InterceptInfo ::
  "('m \<Rightarrow> string \<Rightarrow> 'h \<Rightarrow> bool) \<Rightarrow> (string \<times> 'm apiMatcher) list \<Rightarrow> string \<Rightarrow> string \<Rightarrow> 'h
    \<Rightarrow> restapi_InterceptInfo option \<times> error option" where
  "InterceptInfo Matches currentMatchers callerID path headers =
     (let r = \<lparr> ri_Intercepted = False, ri_ClientSide = True, ri_Metadata = None \<rparr> in
      case map_of currentMatchers callerID of
        None \<Rightarrow> (Some r, None)
      | Some am \<Rightarrow>
          if Matches (am_requestMatcher am) path headers
          then (Some (r \<lparr> ri_Intercepted := True, ri_Metadata := Some (am_metadata am) \<rparr>), None)
          else (Some r, None))"

section \<open>ensureNoInterceptConflict\<close>

text \<open>
  The loop over \<open>s.currentIntercepts\<close>. The list is the map in the order in which this
  call's \<open>range\<close> visits it (Go leaves that order unspecified), so a statement about every
  list is a statement about every iteration order.
\<close>

fun conflictLoop :: "InterceptSpec \<Rightarrow> (string \<times> intercept) list \<Rightarrow> InterceptResult option" where
  "conflictLoop spec [] = None"
| "conflictLoop spec ((k, iCept) # rest) =
     (if spec_Name (ii_Spec (ic_info iCept)) = spec_Name spec
      then Some (InterceptError ALREADY_EXISTS (UserError (spec_Name spec)))
      else if spec_TargetPort spec \<noteq> 0
              \<and> spec_TargetPort (ii_Spec (ic_info iCept)) = spec_TargetPort spec
              \<and> spec_TargetHost (ii_Spec (ic_info iCept)) = spec_TargetHost spec
      then Some (emptyResult \<lparr> res_Error := LOCAL_TARGET_IN_USE, res_ErrorText := spec_Name spec,
                   res_ErrorCategory := CatUser, res_InterceptInfo := Some (ic_info iCept) \<rparr>)
      else conflictLoop spec rest)"

text \<open>
  \<open>ensureNoMountConflict\<close> is defined in another file of the package; its outcome (nil or
  an error) is the parameter \<open>mountConflict\<close>. \<open>None\<close> as result is Go's nil: the request
  passes the check.
\<close>

definition ensureNoInterceptConflict ::
  "error option \<Rightarrow> (string \<times> intercept) list \<Rightarrow> InterceptSpec \<Rightarrow> InterceptResult option" where
  "ensureNoInterceptConflict mountConflict currentIntercepts spec =
     (case mountConflict of
        Some err \<Rightarrow> Some (emptyResult \<lparr> res_Error := MOUNT_POINT_BUSY, res_ErrorText := error_text err,
                             res_ErrorCategory := CatUser \<rparr>)
      | None \<Rightarrow> conflictLoop spec currentIntercepts)"

text \<open>The two conditions of the loop's \<open>switch\<close>, named for the statements below.\<close>

definition sameName :: "InterceptSpec \<Rightarrow> intercept \<Rightarrow> bool" where
  "sameName spec iCept \<longleftrightarrow> spec_Name (ii_Spec (ic_info iCept)) = spec_Name spec"

definition sameTarget :: "InterceptSpec \<Rightarrow> intercept \<Rightarrow> bool" where
  "sameTarget spec iCept \<longleftrightarrow>
     spec_TargetPort spec \<noteq> 0
     \<and> spec_TargetPort (ii_Spec (ic_info iCept)) = spec_TargetPort spec
     \<and> spec_TargetHost (ii_Spec (ic_info iCept)) = spec_TargetHost spec"

definition targetInUse :: "InterceptSpec \<Rightarrow> manager_InterceptInfo \<Rightarrow> InterceptResult" where
  "targetInUse spec info = emptyResult \<lparr> res_Error := LOCAL_TARGET_IN_USE,
     res_ErrorText := spec_Name spec, res_ErrorCategory := CatUser, res_InterceptInfo := Some info \<rparr>"


section \<open>Strings\<close>

text \<open>Go strings are byte sequences; \<open>strings.HasPrefix\<close> and \<open>strings.Contains\<close>.\<close>

definition HasPrefix :: "string \<Rightarrow> string \<Rightarrow> bool" where
  "HasPrefix s p \<longleftrightarrow> take (length p) s = p"

fun Contains :: "string \<Rightarrow> string \<Rightarrow> bool" where
  "Contains [] sub = (sub = [])"
| "Contains (c # cs) sub = (HasPrefix (c # cs) sub \<or> Contains cs sub)"

section \<open>The agent configuration and findIntercept\<close>

text \<open>\<open>agentconfig.Intercept\<close>, \<open>agentconfig.Container\<close> and \<open>agentconfig.Sidecar\<close>, with
  the fields the manager's state code reads. \<open>ReplacePolicy\<close> is a boolean type.\<close>

record agent_Intercept =
  aic_ContainerPortName :: string
  aic_ServiceName :: string
  aic_ServiceUID :: string
  aic_ServicePortName :: string
  aic_ServicePort :: nat
  aic_Protocol :: string
  aic_ContainerPort :: nat

record Container =
  cn_Name :: string
  cn_Intercepts :: "agent_Intercept list"
  cn_Replace :: bool

record Sidecar =
  ac_AgentName :: string
  ac_AgentImage :: string
  ac_Namespace :: string
  ac_WorkloadName :: string
  ac_WorkloadKind :: string
  ac_Containers :: "Container list"

text \<open>
  The matching test at the head of the inner loop body. \<open>IsInterceptForService\<close> and
  \<open>IsInterceptForContainer\<close> belong to the agentconfig package and are parameters.
\<close>

definition ruleMatches ::
  "(string \<Rightarrow> agent_Intercept \<Rightarrow> bool) \<Rightarrow> (string \<Rightarrow> agent_Intercept \<Rightarrow> bool)
    \<Rightarrow> InterceptSpec \<Rightarrow> agent_Intercept \<Rightarrow> bool" where
  "ruleMatches IsInterceptForService IsInterceptForContainer spec ic \<longleftrightarrow>
     (spec_ServiceName spec = [] \<or> spec_ServiceName spec = aic_ServiceName ic)
     \<and> (spec_PortIdentifier spec = [] \<or>
          (if aic_ServiceUID ic \<noteq> [] then IsInterceptForService (spec_PortIdentifier spec) ic
           else IsInterceptForContainer (spec_PortIdentifier spec) ic))"

text \<open>The four messages of the \<open>switch\<close> that reports a second matching rule.\<close>

definition workloadText :: "Sidecar \<Rightarrow> string" where
  "workloadText ac = ac_WorkloadKind ac @ '' '' @ ac_WorkloadName ac @ ''.'' @ ac_Namespace ac"

definition ambiguityMessage :: "Sidecar \<Rightarrow> InterceptSpec \<Rightarrow> string" where
  "ambiguityMessage ac spec =
     (if spec_ServiceName spec = [] \<and> spec_PortIdentifier spec = [] then
        workloadText ac @ '' has multiple interceptable ports.'' @ [CHR 0x0A]
        @ ''Please specify the service and/or port you want to intercept ''
        @ ''by passing the --service=<svc> and/or --port=<local:portName/portNumber> flag.''
      else if spec_ServiceName spec = [] then
        workloadText ac @ '' has multiple interceptable services with port ''
        @ spec_PortIdentifier spec @ ''.'' @ [CHR 0x0A]
        @ ''Please specify the service you want to intercept by passing the --service=<svc> flag.''
      else if spec_PortIdentifier spec = [] then
        workloadText ac @ '' has multiple interceptable ports in service ''
        @ spec_ServiceName spec @ ''.'' @ [CHR 0x0A]
        @ ''Please specify the port you want to intercept by passing the --port=<local:svcPortName> flag.''
      else
        workloadText ac @ '' intercept config is broken. Service '' @ spec_ServiceName spec
        @ '', port '' @ spec_PortIdentifier spec @ '' is declared more than once'' @ [CHR 0x0A])"

text \<open>The message returned when the loops end without a candidate.\<close>

definition noPortMessage :: "Sidecar \<Rightarrow> InterceptSpec \<Rightarrow> string" where
  "noPortMessage ac spec =
     workloadText ac @ '' has no interceptable port'' @
     (if spec_ServiceName spec \<noteq> [] then
        (if spec_PortIdentifier spec \<noteq> []
         then '' matching service '' @ spec_ServiceName spec @ '', port '' @ spec_PortIdentifier spec
         else '' matching service '' @ spec_ServiceName spec)
      else if spec_PortIdentifier spec \<noteq> [] then '' matching port '' @ spec_PortIdentifier spec
      else [])"

text \<open>
  \<open>foundCN\<close> points into \<open>ac.Containers\<close>; the pointer is the container's index. The search
  \<open>for _, cx := range ac.Containers\<close> for the requested container name gives the first index
  with that name.
\<close>

fun containerIndex :: "string \<Rightarrow> Container list \<Rightarrow> nat option" where
  "containerIndex name [] = None"
| "containerIndex name (cx # cxs) =
     (if cn_Name cx = name then Some 0 else map_option Suc (containerIndex name cxs))"

definition chooseContainer :: "Sidecar \<Rightarrow> InterceptSpec \<Rightarrow> nat \<Rightarrow> nat" where
  "chooseContainer ac spec i =
     (if spec_ContainerName spec \<noteq> [] then
        (case containerIndex (spec_ContainerName spec) (ac_Containers ac) of
           Some j \<Rightarrow> j | None \<Rightarrow> i)
      else i)"

text \<open>The inner loop over \<open>cn.Intercepts\<close> of the container with index \<open>i\<close>; \<open>found\<close> is
  the pair \<open>(foundCN, foundIC)\<close>, \<open>None\<close> while \<open>foundIC == nil\<close>.\<close>

fun findInIntercepts ::
  "(string \<Rightarrow> agent_Intercept \<Rightarrow> bool) \<Rightarrow> (string \<Rightarrow> agent_Intercept \<Rightarrow> bool)
    \<Rightarrow> Sidecar \<Rightarrow> InterceptSpec \<Rightarrow> nat \<Rightarrow> agent_Intercept list
    \<Rightarrow> (nat \<times> agent_Intercept) option \<Rightarrow> error + (nat \<times> agent_Intercept) option" where
  "findInIntercepts fs fc ac spec i [] found = Inr found"
| "findInIntercepts fs fc ac spec i (ic # ics) found =
     (if \<not> (spec_ServiceName spec = [] \<or> spec_ServiceName spec = aic_ServiceName ic)
      then findInIntercepts fs fc ac spec i ics found
      else if spec_PortIdentifier spec \<noteq> []
              \<and> (if aic_ServiceUID ic \<noteq> [] then \<not> fs (spec_PortIdentifier spec) ic
                  else \<not> fc (spec_PortIdentifier spec) ic)
      then findInIntercepts fs fc ac spec i ics found
      else (case found of
              None \<Rightarrow> findInIntercepts fs fc ac spec i ics (Some (chooseContainer ac spec i, ic))
            | Some _ \<Rightarrow> Inl (UserError (ambiguityMessage ac spec))))"

text \<open>The outer loop over \<open>ac.Containers\<close>, from index \<open>i\<close> on.\<close>

fun findInContainers ::
  "(string \<Rightarrow> agent_Intercept \<Rightarrow> bool) \<Rightarrow> (string \<Rightarrow> agent_Intercept \<Rightarrow> bool)
    \<Rightarrow> Sidecar \<Rightarrow> InterceptSpec \<Rightarrow> nat \<Rightarrow> Container list
    \<Rightarrow> (nat \<times> agent_Intercept) option \<Rightarrow> error + (nat \<times> agent_Intercept) option" where
  "findInContainers fs fc ac spec i [] found = Inr found"
| "findInContainers fs fc ac spec i (cn # cns) found =
     (case findInIntercepts fs fc ac spec i (cn_Intercepts cn) found of
        Inl e \<Rightarrow> Inl e
      | Inr found' \<Rightarrow> findInContainers fs fc ac spec (Suc i) cns found')"

definition findIntercept ::
  "(string \<Rightarrow> agent_Intercept \<Rightarrow> bool) \<Rightarrow> (string \<Rightarrow> agent_Intercept \<Rightarrow> bool)
    \<Rightarrow> Sidecar \<Rightarrow> InterceptSpec \<Rightarrow> error + (nat \<times> agent_Intercept)" where
  "findIntercept fs fc ac spec =
     (case findInContainers fs fc ac spec 0 (ac_Containers ac) None of
        Inl e \<Rightarrow> Inl e
      | Inr (Some f) \<Rightarrow> Inr f
      | Inr None \<Rightarrow> Inl (UserError (noPortMessage ac spec)))"

text \<open>All declared (container index, rule) pairs in the order the loops visit them.\<close>

definition declaredRules :: "nat \<Rightarrow> Container list \<Rightarrow> (nat \<times> agent_Intercept) list" where
  "declaredRules i cns =
     concat (map (\<lambda>(j, cn). map (Pair j) (cn_Intercepts cn)) (enumerate i cns))"

definition matchingRules ::
  "(string \<Rightarrow> agent_Intercept \<Rightarrow> bool) \<Rightarrow> (string \<Rightarrow> agent_Intercept \<Rightarrow> bool)
    \<Rightarrow> Sidecar \<Rightarrow> InterceptSpec \<Rightarrow> (nat \<times> agent_Intercept) list" where
  "matchingRules fs fc ac spec =
     filter (\<lambda>(j, ic). ruleMatches fs fc spec ic) (declaredRules 0 (ac_Containers ac))"

text \<open>Sample data: a workload with two containers, one rule each, in services
  \<open>svcA\<close> and \<open>svcB\<close>; and one whose container declares the same service port twice.\<close>

definition mkRule :: "string \<Rightarrow> string \<Rightarrow> nat \<Rightarrow> agent_Intercept" where
  "mkRule svc portName port = \<lparr> aic_ContainerPortName = portName, aic_ServiceName = svc,
     aic_ServiceUID = ''uid-'' @ svc, aic_ServicePortName = portName, aic_ServicePort = port,
     aic_Protocol = ''TCP'', aic_ContainerPort = port \<rparr>"

definition mkSidecar :: "Container list \<Rightarrow> Sidecar" where
  "mkSidecar cns = \<lparr> ac_AgentName = ''echo'', ac_AgentImage = ''tel2:2.20.0'',
     ac_Namespace = ''default'', ac_WorkloadName = ''echo'', ac_WorkloadKind = ''Deployment'',
     ac_Containers = cns \<rparr>"

definition twoServices :: Sidecar where
  "twoServices = mkSidecar
     [\<lparr> cn_Name = ''app'', cn_Intercepts = [mkRule ''svcA'' ''http'' 8080], cn_Replace = False \<rparr>,
      \<lparr> cn_Name = ''admin'', cn_Intercepts = [mkRule ''svcB'' ''http'' 9090], cn_Replace = False \<rparr>]"

definition duplicateRule :: Sidecar where
  "duplicateRule = mkSidecar
     [\<lparr> cn_Name = ''app'', cn_Intercepts = [mkRule ''svcA'' ''http'' 8080, mkRule ''svcA'' ''http'' 8080],
        cn_Replace = False \<rparr>]"

text \<open>A stand-in for the agentconfig port tests in the concrete evaluations: the port
  identifier names the service port, respectively the container port.\<close>

definition byServicePortName :: "string \<Rightarrow> agent_Intercept \<Rightarrow> bool" where
  "byServicePortName pi ic \<longleftrightarrow> pi = aic_ServicePortName ic"

definition byContainerPortName :: "string \<Rightarrow> agent_Intercept \<Rightarrow> bool" where
  "byContainerPortName pi ic \<longleftrightarrow> pi = aic_ContainerPortName ic"

section \<open>The manager state: workloads, agents, collaborators\<close>

text \<open>
  \<open>k8sapi.Workload\<close> as far as the embedded code reads it: name, namespace, kind, the pod
  template's annotations (\<open>None\<close> is a nil map) and the names of the pod template's
  containers.
\<close>

record Workload =
  wl_Name :: string
  wl_Namespace :: string
  wl_Kind :: string
  wl_Annotations :: "(string \<times> string) list option"
  wl_Containers :: "string list"

record AgentInfo =
  ai_Name :: string
  ai_Namespace :: string
  ai_Kind :: string
  ai_PodName :: string

text \<open>
  What the embedded functions take from packages outside the embedded files: the constants
  \<open>mutator.ManualInjectAnnotation\<close>, \<open>mutator.InjectAnnotation\<close>,
  \<open>agentconfig.ContainerName\<close> and \<open>agentconfig.ConfigMap\<close>; the configured agent image
  and the injector switch (\<open>managerutil\<close>); YAML encoding and decoding of a sidecar; the
  generator of a fresh sidecar configuration; the two port tests of agentconfig.
\<close>

record Env =
  ManualInjectAnnotation :: string
  InjectAnnotation :: string
  ContainerName :: string
  ConfigMap :: string
  GetAgentImage :: string
  AgentInjectorEnabled :: bool
  UnmarshalYAML :: "string \<Rightarrow> error + Sidecar"
  Marshal :: "Sidecar \<Rightarrow> error + string"
  Generate :: "string \<Rightarrow> Workload \<Rightarrow> error + Sidecar"
  IsInterceptForService :: "string \<Rightarrow> agent_Intercept \<Rightarrow> bool"
  IsInterceptForContainer :: "string \<Rightarrow> agent_Intercept \<Rightarrow> bool"

text \<open>Effects of the manager-side functions on the cluster, in the order they happen.\<close>

datatype mgr_event =
  EvUpdate string bool
  | EvDelete string string
  | EvGetLogs string string

text \<open>
  The manager state: the agent-config entries of the mutator's map, keyed by
  (namespace, workload name) and holding YAML; the registered agents by session id; the
  agent sessions marked inactive; the blacklisted (pod name, namespace) pairs; the trace of
  effects.
\<close>

record state =
  st_entries :: "(string \<times> string) \<Rightarrow> string option"
  st_agents :: "(string \<times> AgentInfo) list"
  st_inactive :: "string list"
  st_blacklist :: "(string \<times> string) list"
  st_trace :: "mgr_event list"

section \<open>checkInterceptAnnotations\<close>

text \<open>Reading a Go \<open>map[string]string\<close>: a missing key gives the empty string.\<close>

definition annotation :: "(string \<times> string) list \<Rightarrow> string \<Rightarrow> string" where
  "annotation a k = (case map_of a k of Some v \<Rightarrow> v | None \<Rightarrow> [])"

text \<open>The part after the \<open>switch\<close>: the result for a valid annotation value.\<close>

definition afterSwitch :: "Env \<Rightarrow> Workload \<Rightarrow> bool \<Rightarrow> bool \<Rightarrow> error + bool" where
  "afterSwitch env wl manuallyManaged webhookEnabled =
     (if \<not> manuallyManaged then Inr webhookEnabled
      else if ContainerName env \<in> set (wl_Containers wl) then Inr True
      else Inl (UserError (''annotation '' @ wl_Name wl @ ''.'' @ wl_Namespace wl @ ''/''
                  @ ManualInjectAnnotation env @ ''=true but pod has no traffic-agent container'')))"

definition checkInterceptAnnotations :: "Env \<Rightarrow> Workload \<Rightarrow> error + bool" where
  "checkInterceptAnnotations env wl =
     (case wl_Annotations wl of
        None \<Rightarrow> Inr True
      | Some a \<Rightarrow>
          (let manuallyManaged = (annotation a (ManualInjectAnnotation env) = ''true'');
               ia = annotation a (InjectAnnotation env)
           in if ia = [] then afterSwitch env wl manuallyManaged (\<not> manuallyManaged)
              else if ia = ''enabled'' then afterSwitch env wl manuallyManaged True
              else if ia = ''false'' \<or> ia = ''disabled'' then afterSwitch env wl manuallyManaged False
              else Inl (UserError (ia @ '' is not a valid value for the '' @ wl_Name wl @ ''.''
                          @ wl_Namespace wl @ ''/'' @ ManualInjectAnnotation env @ '' annotation''))))"

section \<open>waitForAgents and writeEventList\<close>

text \<open>\<open>events.Event\<close> as far as it is read.\<close>

record Event =
  ev_Type :: string
  ev_Reason :: string
  ev_Note :: string
  ev_RegardingKind :: string
  ev_RegardingName :: string

text \<open>
  The regular expression
  \<^verbatim>\<open>restarting failed container (\S+) in pod ([0-9A-Za-z_-]+)_\<close> followed by the namespace
  (a Kubernetes namespace is a DNS label, so it stands for itself in the expression).
  \<open>FindStringSubmatch\<close> gives the leftmost match, each repetition as long as possible:
  \<open>\S+\<close> must take a whole run of non-space bytes, since a space has to follow; the pod
  name is the longest prefix of the run of admissible bytes that is followed by an
  underscore and the namespace.
\<close>

definition isSpace :: "char \<Rightarrow> bool" where
  "isSpace c \<longleftrightarrow> c \<in> set [CHR '' '', CHR 0x09, CHR 0x0A, CHR 0x0C, CHR 0x0D]"

definition isPodChar :: "char \<Rightarrow> bool" where
  "isPodChar c \<longleftrightarrow>
     (let n = (of_char c :: nat)
      in (48 \<le> n \<and> n \<le> 57) \<or> (65 \<le> n \<and> n \<le> 90) \<or> (97 \<le> n \<and> n \<le> 122)
         \<or> c = CHR ''_'' \<or> c = CHR ''-'')"

fun longestPod :: "string \<Rightarrow> string \<Rightarrow> nat \<Rightarrow> string option" where
  "longestPod r suffix 0 = None"
| "longestPod r suffix (Suc k) =
     (if HasPrefix (drop (Suc k) r) suffix then Some (take (Suc k) r)
      else longestPod r suffix k)"

definition matchAt :: "string \<Rightarrow> string \<Rightarrow> (string \<times> string) option" where
  "matchAt namespace s =
     (if HasPrefix s ''restarting failed container '' then
        (let r = drop (length ''restarting failed container '') s;
             cn = takeWhile (\<lambda>c. \<not> isSpace c) r;
             r2 = dropWhile (\<lambda>c. \<not> isSpace c) r
         in if cn \<noteq> [] \<and> HasPrefix r2 '' in pod '' then
              (let r3 = drop (length '' in pod '') r2
               in map_option (Pair cn)
                    (longestPod r3 (''_'' @ namespace) (length (takeWhile isPodChar r3))))
            else None)
      else None)"

fun failedContainerRx :: "string \<Rightarrow> string \<Rightarrow> (string \<times> string) option" where
  "failedContainerRx namespace [] = None"
| "failedContainerRx namespace (c # cs) =
     (case matchAt namespace (c # cs) of
        Some m \<Rightarrow> Some m
      | None \<Rightarrow> failedContainerRx namespace cs)"

text \<open>
  \<open>writeEventList\<close>. The age of an event is \<open>time.Now()\<close> minus its creation time,
  rendered by the standard library; it is the parameter \<open>age\<close>. \<open>%-*s\<close> pads on the
  right with spaces to the given width; the texts are taken to be ASCII, where the bytes
  counted by \<open>len\<close> and the characters counted by the padding agree, and
  \<open>strings.ToLower\<close> maps \<open>A\<close>..\<open>Z\<close> to \<open>a\<close>..\<open>z\<close>.
\<close>

definition padRight :: "nat \<Rightarrow> string \<Rightarrow> string" where
  "padRight w t = t @ replicate (w - length t) CHR '' ''"

definition toLowerChar :: "char \<Rightarrow> char" where
  "toLowerChar c =
     (let n = (of_char c :: nat) in if 65 \<le> n \<and> n \<le> 90 then char_of (n + 32) else c)"

definition ToLower :: "string \<Rightarrow> string" where
  "ToLower t = map toLowerChar t"

definition object :: "Event \<Rightarrow> string" where
  "object e = ToLower (ev_RegardingKind e) @ ''/'' @ ev_RegardingName e"

text \<open>The first loop: the widest entry of a column, starting from the title's length.\<close>

definition columnLen :: "string \<Rightarrow> (Event \<Rightarrow> string) \<Rightarrow> Event list \<Rightarrow> nat" where
  "columnLen title cell es = fold (\<lambda>e l. if length (cell e) > l then length (cell e) else l) es (length title) + 3"

definition eventLine :: "(Event \<Rightarrow> string) \<Rightarrow> Event list \<Rightarrow> string \<Rightarrow> string \<Rightarrow> string \<Rightarrow> string \<Rightarrow> string \<Rightarrow> string" where
  "eventLine age es a t r ob m =
     padRight (columnLen ''AGE'' age es) a @ padRight (columnLen ''TYPE'' ev_Type es) t
     @ padRight (columnLen ''REASON'' ev_Reason es) r @ padRight (columnLen ''OBJECT'' object es) ob
     @ m @ [CHR 0x0A]"

definition writeEventList :: "(Event \<Rightarrow> string) \<Rightarrow> Event list \<Rightarrow> string" where
  "writeEventList age es =
     eventLine age es ''AGE'' ''TYPE'' ''REASON'' ''OBJECT'' ''MESSAGE''
     @ concat (map (\<lambda>e. eventLine age es (age e) (ev_Type e) (ev_Reason e) (object e) (ev_Note e)) es)"

text \<open>
  What the \<open>select\<close> of waitForAgents receives, one entry per iteration: an event from
  \<open>failedCreateCh\<close> (\<open>None\<close>: the channel is closed), a snapshot from the agent watch
  (\<open>None\<close>: closed), or the context being done.
\<close>

datatype wait_event =
  FailedCreate "Event option"
  | AgentSnapshot "AgentInfo list option"
  | CtxDone ctx_err

definition transientFailure :: "Event \<Rightarrow> bool" where
  "transientFailure fe \<longleftrightarrow>
     ev_Type fe = ''Warning''
     \<and> (Contains (ev_Note fe) ''waiting for ephemeral volume''
        \<or> Contains (ev_Note fe) ''unbound immediate PersistentVolumeClaims''
        \<or> Contains (ev_Note fe) ''skip schedule deleting pod''
        \<or> Contains (ev_Note fe) ''nodes are available'')"

definition backOffMessage :: "Event \<Rightarrow> string" where
  "backOffMessage fe = ev_Note fe @ [CHR 0x0A] @ ''The logs of '' @ ev_RegardingKind fe @ '' ''
     @ ev_RegardingName fe @ '' might provide more details''"

definition failedMessage :: "Event \<Rightarrow> string" where
  "failedMessage fe = ev_Note fe @ [CHR 0x0A]
     @ ''Hint: if the error mentions resource quota, the traffic-agent's requested resources can be configured by providing values to telepresence helm install''"

definition doneMessage :: "(Event \<Rightarrow> string) \<Rightarrow> string \<Rightarrow> string \<Rightarrow> Event list \<Rightarrow> ctx_err \<Rightarrow> string" where
  "doneMessage age name namespace fes e =
     ''request '' @ (if e = DeadlineExceeded then ''timed out'' else ''canceled'')
     @ '' while waiting for agent '' @ name @ ''.'' @ namespace @ '' to arrive''
     @ (if fes \<noteq> [] then '': Events that may be relevant:'' @ [CHR 0x0A] @ writeEventList age fes
        else [])"

definition IsBlacklisted :: "state \<Rightarrow> string \<Rightarrow> string \<Rightarrow> bool" where
  "IsBlacklisted st podName namespace \<longleftrightarrow> (podName, namespace) \<in> set (st_blacklist st)"

text \<open>
  The loop of waitForAgents; \<open>fes\<close> are the events buffered so far. The result is
  \<open>None\<close> when the receptions end with the loop still waiting. Fetching the log of a
  failing container is the effect \<open>EvGetLogs pod container\<close>; what is then written to the
  manager's own log is not modelled.
\<close>

fun waitForAgentsLoop ::
  "(Event \<Rightarrow> string) \<Rightarrow> string \<Rightarrow> string \<Rightarrow> Event list \<Rightarrow> wait_event list \<Rightarrow> state
    \<Rightarrow> ((error + AgentInfo list) \<times> state) option" where
  "waitForAgentsLoop age name namespace fes [] st = None"
| "waitForAgentsLoop age name namespace fes (FailedCreate None # rest) st =
     Some (Inl (PlainError ''failed create channel closed''), st)"
| "waitForAgentsLoop age name namespace fes (FailedCreate (Some fe) # rest) st =
     (if ev_Reason fe = ''BackOff'' then
        Some (Inl (UserError (backOffMessage fe)),
              (case failedContainerRx namespace (ev_Note fe) of
                 Some (cn, pod) \<Rightarrow> st \<lparr> st_trace := st_trace st @ [EvGetLogs pod cn] \<rparr>
               | None \<Rightarrow> st))
      else if ev_Reason fe = ''Failed'' \<or> ev_Reason fe = ''FailedCreate''
              \<or> ev_Reason fe = ''FailedScheduling'' then
        (if transientFailure fe
         then waitForAgentsLoop age name namespace (fes @ [fe]) rest st
         else Some (Inl (UserError (failedMessage fe)), st))
      else waitForAgentsLoop age name namespace (fes @ [fe]) rest st)"
| "waitForAgentsLoop age name namespace fes (AgentSnapshot None # rest) st =
     Some (Inl (StatusError Canceled (''channel closed while waiting for agent '' @ name @ ''.''
                  @ namespace @ '' to arrive'')), st)"
| "waitForAgentsLoop age name namespace fes (AgentSnapshot (Some snapshot) # rest) st =
     (if snapshot = [] then waitForAgentsLoop age name namespace fes rest st
      else (let as = filter (\<lambda>a. \<not> IsBlacklisted st (ai_PodName a) (ai_Namespace a)) snapshot
            in if as \<noteq> [] then Some (Inr as, st)
               else waitForAgentsLoop age name namespace fes rest st))"
| "waitForAgentsLoop age name namespace fes (CtxDone e # rest) st =
     Some (Inl (UserError (doneMessage age name namespace fes e)), st)"

definition waitForAgents ::
  "(Event \<Rightarrow> string) \<Rightarrow> string \<Rightarrow> string \<Rightarrow> wait_event list \<Rightarrow> state
    \<Rightarrow> ((error + AgentInfo list) \<times> state) option" where
  "waitForAgents age name namespace evs st = waitForAgentsLoop age name namespace [] evs st"

text \<open>Sample data for the concrete evaluations.\<close>

definition sampleEnv :: Env where
  "sampleEnv = \<lparr> ManualInjectAnnotation = ''telepresence.getambassador.io/manually-injected'',
     InjectAnnotation = ''telepresence.getambassador.io/inject-traffic-agent'',
     ContainerName = ''traffic-agent'', ConfigMap = ''telepresence-agents'',
     GetAgentImage = ''tel2:2.20.0'', AgentInjectorEnabled = True,
     UnmarshalYAML = (\<lambda>y. if y = ''echo: {}'' then Inr twoServices
                           else Inl (PlainError ''yaml: cannot unmarshal'')),
     Marshal = (\<lambda>ac. Inr (ac_WorkloadName ac @ '': {}'')),
     Generate = (\<lambda>img wl. Inr (twoServices \<lparr> ac_AgentImage := img, ac_WorkloadName := wl_Name wl,
                    ac_AgentName := wl_Name wl, ac_Namespace := wl_Namespace wl,
                    ac_WorkloadKind := wl_Kind wl \<rparr>)),
     IsInterceptForService = byServicePortName,
     IsInterceptForContainer = byContainerPortName \<rparr>"

definition mkWorkload :: "(string \<times> string) list option \<Rightarrow> string list \<Rightarrow> Workload" where
  "mkWorkload a cns = \<lparr> wl_Name = ''echo'', wl_Namespace = ''default'', wl_Kind = ''Deployment'',
     wl_Annotations = a, wl_Containers = cns \<rparr>"

definition emptyState :: state where
  "emptyState = \<lparr> st_entries = (\<lambda>k. None), st_agents = [], st_inactive = [], st_blacklist = [],
     st_trace = [] \<rparr>"

definition mkEvent :: "string \<Rightarrow> string \<Rightarrow> string \<Rightarrow> Event" where
  "mkEvent tp reason note = \<lparr> ev_Type = tp, ev_Reason = reason, ev_Note = note,
     ev_RegardingKind = ''Pod'', ev_RegardingName = ''echo-7d9f'' \<rparr>"

definition mkAgent :: "string \<Rightarrow> AgentInfo" where
  "mkAgent pod = \<lparr> ai_Name = ''echo'', ai_Namespace = ''default'', ai_Kind = ''Deployment'',
     ai_PodName = pod \<rparr>"

definition transientEvent :: Event where
  "transientEvent = mkEvent ''Warning'' ''FailedScheduling'' ''0/3 nodes are available''"

definition crashLoopEvent :: Event where
  "crashLoopEvent = mkEvent ''Warning'' ''BackOff''
     ''Back-off restarting failed container traffic-agent in pod echo-7d9f_default(12ab)''"

text \<open>
  Names for the statements about the loop: a fatal event, the agents of a snapshot that are
  not blacklisted, a reception that leaves the loop waiting, and the events that a run of
  receptions adds to the buffer.
\<close>

definition fatal :: "Event \<Rightarrow> bool" where
  "fatal fe \<longleftrightarrow>
     ev_Reason fe = ''BackOff''
     \<or> ((ev_Reason fe = ''Failed'' \<or> ev_Reason fe = ''FailedCreate''
          \<or> ev_Reason fe = ''FailedScheduling'') \<and> \<not> transientFailure fe)"

definition usable :: "state \<Rightarrow> AgentInfo list \<Rightarrow> AgentInfo list" where
  "usable st snapshot = filter (\<lambda>a. \<not> IsBlacklisted st (ai_PodName a) (ai_Namespace a)) snapshot"

definition passes :: "state \<Rightarrow> wait_event \<Rightarrow> bool" where
  "passes st ev =
     (case ev of
        FailedCreate (Some fe) \<Rightarrow> \<not> fatal fe
      | AgentSnapshot (Some snapshot) \<Rightarrow> usable st snapshot = []
      | _ \<Rightarrow> False)"

definition bufferedOf :: "wait_event list \<Rightarrow> Event list" where
  "bufferedOf evs = concat (map (\<lambda>ev. case ev of FailedCreate (Some fe) \<Rightarrow> [fe] | _ \<Rightarrow> []) evs)"

section \<open>getOrCreateAgentConfig and ensureAgent\<close>

definition ValidateAgentImage :: "string \<Rightarrow> bool \<Rightarrow> error option" where
  "ValidateAgentImage agentImage extended =
     (if agentImage = [] then
        Some (UserError ''intercepts are disabled because the traffic-manager is unable to determine what image to use for injected traffic-agents.'')
      else if extended then
        Some (UserError ''traffic-manager does not support intercepts that require an extended traffic-agent'')
      else None)"

definition ValidateCreateAgent :: "Workload \<Rightarrow> Sidecar \<Rightarrow> error option" where
  "ValidateCreateAgent wl sce = None"

definition unmarshalConfigMapEntry :: "Env \<Rightarrow> string \<Rightarrow> string \<Rightarrow> string \<Rightarrow> error + Sidecar" where
  "unmarshalConfigMapEntry env y name namespace =
     (case UnmarshalYAML env y of
        Inl err \<Rightarrow> Inl (PlainError (''failed to parse entry for '' @ name @ '' in ConfigMap ''
                           @ ConfigMap env @ ''.'' @ namespace @ '': '' @ error_text err))
      | Inr scx \<Rightarrow> Inr scx)"

text \<open>
  \<open>updateSidecar\<close> on the entry of workload \<open>n\<close> in the ConfigMap of \<open>namespace\<close>. The
  first component is the pair \<open>(changed, err)\<close> as a sum.
\<close>

definition updateSidecar :: "Env \<Rightarrow> Sidecar \<Rightarrow> string \<Rightarrow> string \<Rightarrow> state \<Rightarrow> (error + bool) \<times> state" where
  "updateSidecar env sce namespace n st =
     (case Marshal env sce of
        Inl err \<Rightarrow> (Inl err, st)
      | Inr newYaml \<Rightarrow>
          (let oldYaml = (case st_entries st (namespace, n) of Some y \<Rightarrow> y | None \<Rightarrow> [])
           in if oldYaml \<noteq> newYaml
              then (Inr True, st \<lparr> st_entries := (st_entries st)((namespace, n) \<mapsto> newYaml) \<rparr>)
              else (Inr False, st)))"

text \<open>
  The wait for stale agents to depart: the receptions of the \<open>select\<close> on \<open>ctx.Done()\<close>
  and the subscription channel. \<open>None\<close>: still waiting when the receptions end;
  \<open>Some None\<close>: the agents are gone (an empty snapshot or a closed channel).
\<close>

datatype depart_event = DepartCtxDone error | DepartSnapshot "AgentInfo list option"

fun waitForDeparture :: "depart_event list \<Rightarrow> error option option" where
  "waitForDeparture [] = None"
| "waitForDeparture (DepartCtxDone err # rest) = Some (Some err)"
| "waitForDeparture (DepartSnapshot (Some (a # as)) # rest) = waitForDeparture rest"
| "waitForDeparture (DepartSnapshot (Some []) # rest) = Some None"
| "waitForDeparture (DepartSnapshot None # rest) = Some None"

text \<open>
  Modelled from the spec: \<open>getAgentsByName\<close> is defined elsewhere in the package; the spec
  has "mark existing agent sessions for that workload as inactive". The sessions are those
  whose agent carries the workload's name and namespace.
\<close>

definition getAgentsByName :: "state \<Rightarrow> string \<Rightarrow> string \<Rightarrow> (string \<times> AgentInfo) list" where
  "getAgentsByName st name namespace =
     filter (\<lambda>(sessionID, ai). ai_Name ai = name \<and> ai_Namespace ai = namespace) (st_agents st)"

text \<open>The end of the update callback, from \<open>if doUpdate\<close> on.\<close>

definition finishUpdate :: "Env \<Rightarrow> Workload \<Rightarrow> bool \<Rightarrow> Sidecar \<Rightarrow> bool \<Rightarrow> state \<Rightarrow> (error + bool) \<times> state" where
  "finishUpdate env wl cmFound sce doUpdate st =
     (if doUpdate then
        (if cmFound then
           updateSidecar env sce (wl_Namespace wl) (wl_Name wl)
             (st \<lparr> st_inactive := st_inactive st
                     @ map fst (getAgentsByName st (wl_Name wl) (wl_Namespace wl)) \<rparr>)
         else (case ValidateCreateAgent wl sce of
                 Some err \<Rightarrow> (Inl err, st)
               | None \<Rightarrow> updateSidecar env sce (wl_Namespace wl) (wl_Name wl) st))
      else (Inr False, st))"

text \<open>The middle of the callback: the replace policy of the container the request
  resolves to. A successful result carries \<open>changed\<close> and the sidecar \<open>sce\<close> as the
  callback leaves it.\<close>

definition withSidecar :: "Sidecar \<Rightarrow> (error + bool) \<times> state \<Rightarrow> (error + bool \<times> Sidecar) \<times> state" where
  "withSidecar sce r =
     (case r of (Inl err, st') \<Rightarrow> (Inl err, st') | (Inr changed, st') \<Rightarrow> (Inr (changed, sce), st'))"

definition applySpec ::
  "Env \<Rightarrow> Workload \<Rightarrow> InterceptSpec option \<Rightarrow> bool \<Rightarrow> Sidecar \<Rightarrow> bool \<Rightarrow> state
    \<Rightarrow> (error + bool \<times> Sidecar) \<times> state" where
  "applySpec env wl spec cmFound sce doUpdate st =
     (case spec of
        None \<Rightarrow> withSidecar sce (finishUpdate env wl cmFound sce doUpdate st)
      | Some sp \<Rightarrow>
          (case findIntercept (IsInterceptForService env) (IsInterceptForContainer env) sce sp of
             Inl err \<Rightarrow> (Inl err, st)
           | Inr (i, ic) \<Rightarrow>
               if cn_Replace (ac_Containers sce ! i) \<noteq> spec_Replace sp then
                 (let sce' = sce \<lparr> ac_Containers :=
                        (ac_Containers sce)[i := (ac_Containers sce ! i) \<lparr> cn_Replace := spec_Replace sp \<rparr>] \<rparr>
                  in withSidecar sce' (finishUpdate env wl cmFound sce' True st))
               else withSidecar sce (finishUpdate env wl cmFound sce doUpdate st)))"

text \<open>
  The callback passed to the mutator map's \<open>Update\<close>; \<open>None\<close> when it is still waiting
  for stale agents at the end of the receptions \<open>departs\<close>.
\<close>

definition updateCallback ::
  "Env \<Rightarrow> Workload \<Rightarrow> bool \<Rightarrow> InterceptSpec option \<Rightarrow> depart_event list \<Rightarrow> state
    \<Rightarrow> ((error + bool \<times> Sidecar) \<times> state) option" where
  "updateCallback env wl extended spec departs st =
     (case st_entries st (wl_Namespace wl, wl_Name wl) of
        Some y \<Rightarrow>
          (case unmarshalConfigMapEntry env y (wl_Name wl) (wl_Namespace wl) of
             Inl err \<Rightarrow> Some (Inl err, st)
           | Inr sce \<Rightarrow>
               if ac_AgentImage sce \<noteq> GetAgentImage env \<and> extended
               then Some (applySpec env wl spec True (sce \<lparr> ac_AgentImage := GetAgentImage env \<rparr>) True st)
               else Some (applySpec env wl spec True sce False st))
      | None \<Rightarrow>
          (case Generate env (GetAgentImage env) wl of
             Inl err \<Rightarrow> Some (Inl err, st)
           | Inr sce \<Rightarrow>
               if filter (\<lambda>(sessionID, info). ai_Kind info = wl_Kind wl \<and> ai_Name info = wl_Name wl
                            \<and> ai_Namespace info = wl_Namespace wl) (st_agents st) \<noteq> []
               then (case waitForDeparture departs of
                       None \<Rightarrow> None
                     | Some (Some err) \<Rightarrow> Some (Inl err, st)
                     | Some None \<Rightarrow> Some (applySpec env wl spec False sce True st))
               else Some (applySpec env wl spec False sce True st)))"

text \<open>
  \<open>getOrCreateAgentConfig\<close>. The mutator map's \<open>Update\<close> runs the callback on the
  namespace's ConfigMap and stores the ConfigMap when the callback reports a change; the
  call is the effect \<open>EvUpdate namespace changed\<close>. The callback is taken to run once and
  the store to succeed.
\<close>

definition getOrCreateAgentConfig ::
  "Env \<Rightarrow> Workload \<Rightarrow> bool \<Rightarrow> InterceptSpec option \<Rightarrow> depart_event list \<Rightarrow> state
    \<Rightarrow> ((error + Sidecar) \<times> state) option" where
  "getOrCreateAgentConfig env wl extended spec departs st =
     (case checkInterceptAnnotations env wl of
        Inl err \<Rightarrow> Some (Inl err, st)
      | Inr enabled \<Rightarrow>
          if \<not> enabled then
            Some (Inl (UserError (wl_Kind wl @ '' '' @ wl_Name wl @ ''.'' @ wl_Namespace wl
                         @ '' is not interceptable'')), st)
          else
            (case ValidateAgentImage (GetAgentImage env) extended of
               Some err \<Rightarrow> Some (Inl err, st)
             | None \<Rightarrow>
                 (case updateCallback env wl extended spec departs st of
                    None \<Rightarrow> None
                  | Some (Inl err, st') \<Rightarrow>
                      Some (Inl err, st' \<lparr> st_trace := st_trace st' @ [EvUpdate (wl_Namespace wl) False] \<rparr>)
                  | Some (Inr (changed, sce), st') \<Rightarrow>
                      Some (Inr sce, st' \<lparr> st_trace := st_trace st' @ [EvUpdate (wl_Namespace wl) changed] \<rparr>))))"

text \<open>\<open>dropAgentConfig\<close>: the mutator map's \<open>Delete\<close>, whose outcome is \<open>deleteErr\<close>.\<close>

definition dropAgentConfig :: "error option \<Rightarrow> Workload \<Rightarrow> state \<Rightarrow> error option \<times> state" where
  "dropAgentConfig deleteErr wl st =
     (deleteErr,
      st \<lparr> st_entries := (if deleteErr = None
                            then (st_entries st)((wl_Namespace wl, wl_Name wl) := None)
                            else st_entries st),
           st_trace := st_trace st @ [EvDelete (wl_Name wl) (wl_Namespace wl)] \<rparr>)"

text \<open>\<open>sortAgents\<close>: by pod name, in the byte order of Go's string comparison.\<close>

definition sortAgents :: "AgentInfo list \<Rightarrow> AgentInfo list" where
  "sortAgents as = sort_key ai_PodName as"

text \<open>
  \<open>ensureAgent\<close>. \<open>watchErr\<close> is the outcome of starting the watch of failed injection
  events; \<open>departs\<close> and \<open>evs\<close> are the receptions of the two waits. With the injector
  disabled the entry is read with the mutator map's \<open>Get\<close>: a missing entry is nil.
\<close>

definition ensureAgent ::
  "Env \<Rightarrow> (Event \<Rightarrow> string) \<Rightarrow> Workload \<Rightarrow> bool \<Rightarrow> InterceptSpec option \<Rightarrow> error option
    \<Rightarrow> depart_event list \<Rightarrow> wait_event list \<Rightarrow> error option \<Rightarrow> state
    \<Rightarrow> ((error + Sidecar \<times> AgentInfo list) \<times> state) option" where
  "ensureAgent env age wl extended spec watchErr departs evs deleteErr st =
     (if \<not> AgentInjectorEnabled env then
        (case st_entries st (wl_Namespace wl, wl_Name wl) of
           None \<Rightarrow>
             Some (Inl (UserError (''agent-injector is disabled and no agent has been added manually for ''
                          @ wl_Name wl @ ''.'' @ wl_Namespace wl)), st)
         | Some y \<Rightarrow>
             (case UnmarshalYAML env y of
                Inl err \<Rightarrow> Some (Inl err, st)
              | Inr ac \<Rightarrow>
                  Some (Inr (ac, sortAgents (map snd (filter (\<lambda>(sessionID, ai).
                          ai_Name ai = ac_AgentName ac \<and> ai_Namespace ai = ac_Namespace ac)
                          (st_agents st)))), st)))
      else
        (case watchErr of
           Some err \<Rightarrow> Some (Inl err, st)
         | None \<Rightarrow>
             (case getOrCreateAgentConfig env wl extended spec departs st of
                None \<Rightarrow> None
              | Some (Inl err, st1) \<Rightarrow> Some (Inl err, st1)
              | Some (Inr ac, st1) \<Rightarrow>
                  (case waitForAgents age (ac_AgentName ac) (ac_Namespace ac) evs st1 of
                     None \<Rightarrow> None
                   | Some (Inl err, st2) \<Rightarrow> Some (Inl err, snd (dropAgentConfig deleteErr wl st2))
                   | Some (Inr as, st2) \<Rightarrow> Some (Inr (ac, sortAgents as), st2)))))"

text \<open>
  For the statements about ensureAgent: from \<open>st\<close> to \<open>st'\<close> the trace only grows, what
  was added holds no \<open>EvDelete\<close>, and no agent-config entry has disappeared.
\<close>

definition keeps :: "state \<Rightarrow> state \<Rightarrow> bool" where
  "keeps st st' \<longleftrightarrow>
     (\<exists>added. st_trace st' = st_trace st @ added \<and> (\<forall>n ns. EvDelete n ns \<notin> set added))
     \<and> (\<forall>k. st_entries st k \<noteq> None \<longrightarrow> st_entries st' k \<noteq> None)"

section \<open>Verified properties\<close>

subsection \<open>ensureNoInterceptConflict\<close>

lemma conflictLoop_Cons:
  "conflictLoop spec ((k, ic) # rest) =
     (if sameName spec ic then Some (InterceptError ALREADY_EXISTS (UserError (spec_Name spec)))
      else if sameTarget spec ic then Some (targetInUse spec (ic_info ic))
      else conflictLoop spec rest)"
  by (simp add: sameName_def sameTarget_def targetInUse_def)

lemma conflictLoop_none:
  "\<forall>ic \<in> snd ` set cur. \<not> sameName spec ic \<and> \<not> sameTarget spec ic
    \<Longrightarrow> conflictLoop spec cur = None"
proof (induction cur)
  case Nil
  show ?case by simp
next
  case (Cons p rest)
  obtain k ic where p: "p = (k, ic)" by (cases p)
  from Cons show ?case unfolding p conflictLoop_Cons by simp
qed

lemma conflictLoop_name:
  assumes "\<exists>ic \<in> snd ` set cur. sameName spec ic"
    and "\<forall>ic \<in> snd ` set cur. \<not> sameName spec ic \<longrightarrow> \<not> sameTarget spec ic"
  shows "conflictLoop spec cur = Some (InterceptError ALREADY_EXISTS (UserError (spec_Name spec)))"
  using assms
proof (induction cur)
  case Nil
  then show ?case by simp
next
  case (Cons p rest)
  obtain k ic where p: "p = (k, ic)" by (cases p)
  from Cons show ?case unfolding p conflictLoop_Cons by auto
qed

lemma conflictLoop_target:
  assumes "\<forall>ic \<in> snd ` set cur. \<not> sameName spec ic"
    and "\<exists>ic \<in> snd ` set cur. sameTarget spec ic"
  shows "\<exists>ic \<in> snd ` set cur. sameTarget spec ic
           \<and> conflictLoop spec cur = Some (targetInUse spec (ic_info ic))"
  using assms
proof (induction cur)
  case Nil
  then show ?case by simp
next
  case (Cons p rest)
  obtain k ic where p: "p = (k, ic)" by (cases p)
  from Cons show ?case unfolding p conflictLoop_Cons by auto
qed

lemma conflictLoop_fails:
  assumes "\<exists>ic \<in> snd ` set cur. sameName spec ic"
  shows "conflictLoop spec cur = Some (InterceptError ALREADY_EXISTS (UserError (spec_Name spec)))
       \<or> (\<exists>ic \<in> snd ` set cur. sameTarget spec ic \<and> \<not> sameName spec ic
             \<and> conflictLoop spec cur = Some (targetInUse spec (ic_info ic)))"
  using assms
proof (induction cur)
  case Nil
  then show ?case by simp
next
  case (Cons p rest)
  obtain k ic where p: "p = (k, ic)" by (cases p)
  from Cons show ?case unfolding p conflictLoop_Cons by auto
qed

text \<open>
  C5, as stated, fails: a request with target port 0 and a new name, whose namespace, target
  host and target port equal those of an existing intercept, passes the check (the loop's
  second case is guarded by \<open>spec.TargetPort != 0\<close>).
\<close>

theorem ensureNoInterceptConflict_port0_counterexample:
  "ensureNoInterceptConflict None
     [(''i1'', mkIntercept 1 (mkInfo ''i1'' (mkSpec ''a'' ''default'' ''127.0.0.1'' 0) ACTIVE))]
     (mkSpec ''b'' ''default'' ''127.0.0.1'' 0) = None"
  by (simp add: ensureNoInterceptConflict_def mkIntercept_def mkInfo_def mkSpec_def)

text \<open>
  Two further concrete runs behind the amended statement: the mount check comes first, and
  the loop returns at the first conflicting entry it visits, so a request that repeats an
  existing name can be answered with another intercept's target conflict.
\<close>

lemma ensureNoInterceptConflict_mount_first:
  "ensureNoInterceptConflict (Some (UserError ''mount point in use''))
     [(''i1'', mkIntercept 1 (mkInfo ''i1'' (mkSpec ''a'' ''default'' ''127.0.0.1'' 8080) ACTIVE))]
     (mkSpec ''a'' ''default'' ''127.0.0.1'' 9090)
   = Some (emptyResult \<lparr> res_Error := MOUNT_POINT_BUSY, res_ErrorText := ''mount point in use'',
                          res_ErrorCategory := CatUser \<rparr>)"
  by (simp add: ensureNoInterceptConflict_def)

lemma ensureNoInterceptConflict_visit_order:
  "ensureNoInterceptConflict None
     [(''i1'', mkIntercept 1 (mkInfo ''i1'' (mkSpec ''a'' ''default'' ''127.0.0.1'' 8080) ACTIVE)),
      (''i2'', mkIntercept 2 (mkInfo ''i2'' (mkSpec ''b'' ''default'' ''127.0.0.1'' 9090) ACTIVE))]
     (mkSpec ''b'' ''default'' ''127.0.0.1'' 8080)
   = Some (targetInUse (mkSpec ''b'' ''default'' ''127.0.0.1'' 8080)
            (mkInfo ''i1'' (mkSpec ''a'' ''default'' ''127.0.0.1'' 8080) ACTIVE))"
  by (simp add: ensureNoInterceptConflict_def mkIntercept_def mkInfo_def mkSpec_def
      targetInUse_def)

text \<open>
  C5 (amended). When the mount-point check passes:
  a request whose name equals an existing intercept's name fails, with ALREADY_EXISTS or
  LOCAL_TARGET_IN_USE, and with ALREADY_EXISTS (category User, text the name) whenever no
  intercept of another name has the request's target host and non-zero target port;
  a request whose name is new, whose target port is not 0 and whose target host and port
  equal an existing intercept's fails with LOCAL_TARGET_IN_USE (category User), the result
  carrying the record of an existing intercept with that target;
  a request that has neither a name nor such a target in common with any current intercept
  passes (the result is nil). The namespace is not compared.
\<close>

theorem ensureNoInterceptConflict_amended:
  "((\<exists>ic \<in> snd ` set cur. sameName spec ic) \<longrightarrow>
      (\<exists>r. ensureNoInterceptConflict None cur spec = Some r
           \<and> (res_Error r = ALREADY_EXISTS \<or> res_Error r = LOCAL_TARGET_IN_USE)))
   \<and> ((\<exists>ic \<in> snd ` set cur. sameName spec ic)
        \<and> (\<forall>ic \<in> snd ` set cur. \<not> sameName spec ic \<longrightarrow> \<not> sameTarget spec ic) \<longrightarrow>
      ensureNoInterceptConflict None cur spec
        = Some (InterceptError ALREADY_EXISTS (UserError (spec_Name spec))))
   \<and> ((\<forall>ic \<in> snd ` set cur. \<not> sameName spec ic) \<and> (\<exists>ic \<in> snd ` set cur. sameTarget spec ic) \<longrightarrow>
      (\<exists>ic \<in> snd ` set cur. sameTarget spec ic
           \<and> ensureNoInterceptConflict None cur spec = Some (targetInUse spec (ic_info ic))))
   \<and> ((\<forall>ic \<in> snd ` set cur. \<not> sameName spec ic \<and> \<not> sameTarget spec ic) \<longrightarrow>
      ensureNoInterceptConflict None cur spec = None)"
proof (intro conjI impI)
  assume a: "\<exists>ic \<in> snd ` set cur. sameName spec ic"
  from conflictLoop_fails[OF a]
  show "\<exists>r. ensureNoInterceptConflict None cur spec = Some r
           \<and> (res_Error r = ALREADY_EXISTS \<or> res_Error r = LOCAL_TARGET_IN_USE)"
    by (auto simp: ensureNoInterceptConflict_def InterceptError_def targetInUse_def)
next
  assume "(\<exists>ic \<in> snd ` set cur. sameName spec ic)
        \<and> (\<forall>ic \<in> snd ` set cur. \<not> sameName spec ic \<longrightarrow> \<not> sameTarget spec ic)"
  then show "ensureNoInterceptConflict None cur spec
        = Some (InterceptError ALREADY_EXISTS (UserError (spec_Name spec)))"
    by (simp add: ensureNoInterceptConflict_def conflictLoop_name)
next
  assume "(\<forall>ic \<in> snd ` set cur. \<not> sameName spec ic) \<and> (\<exists>ic \<in> snd ` set cur. sameTarget spec ic)"
  then show "\<exists>ic \<in> snd ` set cur. sameTarget spec ic
           \<and> ensureNoInterceptConflict None cur spec = Some (targetInUse spec (ic_info ic))"
    using conflictLoop_target[of cur spec] by (simp add: ensureNoInterceptConflict_def)
next
  assume "\<forall>ic \<in> snd ` set cur. \<not> sameName spec ic \<and> \<not> sameTarget spec ic"
  then show "ensureNoInterceptConflict None cur spec = None"
    by (simp add: ensureNoInterceptConflict_def conflictLoop_none)
qed

theorem ensureNoInterceptConflict_amended_witness:
  "ensureNoInterceptConflict None
     [(''i1'', mkIntercept 1 (mkInfo ''i1'' (mkSpec ''a'' ''default'' ''127.0.0.1'' 8080) ACTIVE))]
     (mkSpec ''a'' ''default'' ''127.0.0.1'' 9090)
     = Some (InterceptError ALREADY_EXISTS (UserError ''a''))
   \<and> ensureNoInterceptConflict None
     [(''i1'', mkIntercept 1 (mkInfo ''i1'' (mkSpec ''a'' ''default'' ''127.0.0.1'' 8080) ACTIVE))]
     (mkSpec ''b'' ''default'' ''127.0.0.1'' 8080)
     = Some (targetInUse (mkSpec ''b'' ''default'' ''127.0.0.1'' 8080)
              (mkInfo ''i1'' (mkSpec ''a'' ''default'' ''127.0.0.1'' 8080) ACTIVE))
   \<and> ensureNoInterceptConflict None
     [(''i1'', mkIntercept 1 (mkInfo ''i1'' (mkSpec ''a'' ''default'' ''127.0.0.1'' 8080) ACTIVE))]
     (mkSpec ''b'' ''default'' ''127.0.0.1'' 9090) = None"
  using ensureNoInterceptConflict_amended
      [of "[(''i1'', mkIntercept 1 (mkInfo ''i1'' (mkSpec ''a'' ''default'' ''127.0.0.1'' 8080) ACTIVE))]"
          "mkSpec ''a'' ''default'' ''127.0.0.1'' 9090"]
    ensureNoInterceptConflict_amended
      [of "[(''i1'', mkIntercept 1 (mkInfo ''i1'' (mkSpec ''a'' ''default'' ''127.0.0.1'' 8080) ACTIVE))]"
          "mkSpec ''b'' ''default'' ''127.0.0.1'' 8080"]
    ensureNoInterceptConflict_amended
      [of "[(''i1'', mkIntercept 1 (mkInfo ''i1'' (mkSpec ''a'' ''default'' ''127.0.0.1'' 8080) ACTIVE))]"
          "mkSpec ''b'' ''default'' ''127.0.0.1'' 9090"]
  by (simp add: sameName_def sameTarget_def mkIntercept_def mkInfo_def mkSpec_def)

subsection \<open>InterceptInfo\<close>

text \<open>
  C10. For every callerID, path and header set the query returns a non-nil result and a nil
  error. The result has \<open>Intercepted = true\<close> exactly when a matcher is registered under
  the callerID and it matches the path and headers, and then it carries that matcher's
  metadata; a callerID without a matcher gives \<open>Intercepted = false\<close>, not an error.
\<close>

theorem InterceptInfo_total:
  "\<exists>r. InterceptInfo Matches cm callerID path headers = (Some r, None)
     \<and> (ri_Intercepted r \<longleftrightarrow>
          (\<exists>am. map_of cm callerID = Some am \<and> Matches (am_requestMatcher am) path headers))
     \<and> (ri_Intercepted r \<longrightarrow>
          (\<exists>am. map_of cm callerID = Some am \<and> ri_Metadata r = Some (am_metadata am)))
     \<and> (map_of cm callerID = None \<longrightarrow> \<not> ri_Intercepted r)"
  by (auto simp: InterceptInfo_def Let_def split: option.splits)

theorem InterceptInfo_total_witness:
  "(\<exists>r. InterceptInfo (\<lambda>m p (h::unit). m = p)
          [(''i1'', \<lparr> am_requestMatcher = ''/api'', am_metadata = [(''owner'', ''me'')] \<rparr>)]
          ''i1'' ''/api'' () = (Some r, None)
        \<and> ri_Intercepted r \<and> ri_Metadata r = Some [(''owner'', ''me'')])
   \<and> (\<exists>r. InterceptInfo (\<lambda>m p (h::unit). m = p)
          [(''i1'', \<lparr> am_requestMatcher = ''/api'', am_metadata = [(''owner'', ''me'')] \<rparr>)]
          ''i2'' ''/api'' () = (Some r, None)
        \<and> \<not> ri_Intercepted r)"
  using InterceptInfo_total
      [of "\<lambda>m p (h::unit). m = p"
          "[(''i1'', \<lparr> am_requestMatcher = ''/api'', am_metadata = [(''owner'', ''me'')] \<rparr>)]"
          "''i1''" "''/api''" "()"]
    InterceptInfo_total
      [of "\<lambda>m p (h::unit). m = p"
          "[(''i1'', \<lparr> am_requestMatcher = ''/api'', am_metadata = [(''owner'', ''me'')] \<rparr>)]"
          "''i2''" "''/api''" "()"]
  by auto

subsection \<open>findIntercept\<close>

lemma HasPrefix_Contains: "HasPrefix s sub \<Longrightarrow> Contains s sub"
  by (cases s) (auto simp: HasPrefix_def)

lemma Contains_append: "Contains (a @ sub @ b) sub"
proof (induction a)
  case Nil
  show ?case by (rule HasPrefix_Contains) (simp add: HasPrefix_def)
next
  case (Cons c a)
  then show ?case by simp
qed

lemma Contains_end: "Contains (a @ sub) sub"
  using Contains_append[of a sub "[]"] by simp

lemma findInIntercepts_filter:
  "findInIntercepts fs fc ac spec i ics found =
    (case (found, filter (ruleMatches fs fc spec) ics) of
       (_, []) \<Rightarrow> Inr found
     | (None, [ic]) \<Rightarrow> Inr (Some (chooseContainer ac spec i, ic))
     | _ \<Rightarrow> Inl (UserError (ambiguityMessage ac spec)))"
  by (induction ics arbitrary: found) (auto simp: ruleMatches_def split: option.splits list.splits)

lemma declaredRules_Cons:
  "declaredRules i (cn # cns) = map (Pair i) (cn_Intercepts cn) @ declaredRules (Suc i) cns"
  by (simp add: declaredRules_def)

lemma filter_Pair:
  "filter (\<lambda>(j, ic). P ic) (map (Pair i) xs) = map (Pair i) (filter P xs)"
  by (induction xs) auto

lemma findInContainers_filter:
  "findInContainers fs fc ac spec i cns found =
    (case (found, filter (\<lambda>(j, ic). ruleMatches fs fc spec ic) (declaredRules i cns)) of
       (_, []) \<Rightarrow> Inr found
     | (None, [(j, ic)]) \<Rightarrow> Inr (Some (chooseContainer ac spec j, ic))
     | _ \<Rightarrow> Inl (UserError (ambiguityMessage ac spec)))"
proof (induction cns arbitrary: i found)
  case Nil
  show ?case by (simp add: declaredRules_def split: option.splits)
next
  case (Cons cn cns)
  show ?case
    by (simp add: declaredRules_Cons filter_Pair findInIntercepts_filter Cons.IH
          split: option.splits list.splits prod.splits)
qed

lemma findIntercept_by_matches:
  "findIntercept fs fc ac spec =
    (case matchingRules fs fc ac spec of
       [] \<Rightarrow> Inl (UserError (noPortMessage ac spec))
     | [(j, ic)] \<Rightarrow> Inr (chooseContainer ac spec j, ic)
     | _ \<Rightarrow> Inl (UserError (ambiguityMessage ac spec)))"
  by (simp add: findIntercept_def matchingRules_def findInContainers_filter
        split: list.splits prod.splits)

lemma ambiguityMessage_flags:
  "(spec_ServiceName spec = [] \<and> spec_PortIdentifier spec = [] \<longrightarrow>
      Contains (ambiguityMessage ac spec) ''--service=<svc>''
      \<and> Contains (ambiguityMessage ac spec) ''--port=<local:portName/portNumber>'')
   \<and> (spec_ServiceName spec = [] \<and> spec_PortIdentifier spec \<noteq> [] \<longrightarrow>
      Contains (ambiguityMessage ac spec) ''--service=<svc>'')
   \<and> (spec_ServiceName spec \<noteq> [] \<and> spec_PortIdentifier spec = [] \<longrightarrow>
      Contains (ambiguityMessage ac spec) ''--port=<local:svcPortName>'')"
proof (intro conjI impI)
  assume a: "spec_ServiceName spec = [] \<and> spec_PortIdentifier spec = []"
  let ?p = "workloadText ac @ '' has multiple interceptable ports.'' @ [CHR 0x0A]
        @ ''Please specify the service and/or port you want to intercept by passing the ''"
  have "ambiguityMessage ac spec
      = ?p @ ''--service=<svc>'' @ '' and/or --port=<local:portName/portNumber> flag.''"
    using a by (simp add: ambiguityMessage_def)
  then show "Contains (ambiguityMessage ac spec) ''--service=<svc>''"
    using Contains_append[of ?p "''--service=<svc>''"] by simp
  have "ambiguityMessage ac spec
      = (?p @ ''--service=<svc> and/or '') @ ''--port=<local:portName/portNumber>'' @ '' flag.''"
    using a by (simp add: ambiguityMessage_def)
  then show "Contains (ambiguityMessage ac spec) ''--port=<local:portName/portNumber>''"
    using Contains_append[of "?p @ ''--service=<svc> and/or ''"
        "''--port=<local:portName/portNumber>''" "'' flag.''"] by simp
next
  assume a: "spec_ServiceName spec = [] \<and> spec_PortIdentifier spec \<noteq> []"
  let ?p = "workloadText ac @ '' has multiple interceptable services with port ''
        @ spec_PortIdentifier spec @ ''.'' @ [CHR 0x0A]
        @ ''Please specify the service you want to intercept by passing the ''"
  have "ambiguityMessage ac spec = ?p @ ''--service=<svc>'' @ '' flag.''"
    using a by (simp add: ambiguityMessage_def)
  then show "Contains (ambiguityMessage ac spec) ''--service=<svc>''"
    using Contains_append[of ?p "''--service=<svc>''" "'' flag.''"] by simp
next
  assume a: "spec_ServiceName spec \<noteq> [] \<and> spec_PortIdentifier spec = []"
  let ?p = "workloadText ac @ '' has multiple interceptable ports in service ''
        @ spec_ServiceName spec @ ''.'' @ [CHR 0x0A]
        @ ''Please specify the port you want to intercept by passing the ''"
  have "ambiguityMessage ac spec = ?p @ ''--port=<local:svcPortName>'' @ '' flag.''"
    using a by (simp add: ambiguityMessage_def)
  then show "Contains (ambiguityMessage ac spec) ''--port=<local:svcPortName>''"
    using Contains_append[of ?p "''--port=<local:svcPortName>''" "'' flag.''"] by simp
qed

lemma noPortMessage_filters:
  "Contains (noPortMessage ac spec) ''has no interceptable port''
   \<and> (spec_ServiceName spec \<noteq> [] \<longrightarrow>
        Contains (noPortMessage ac spec) (''matching service '' @ spec_ServiceName spec))
   \<and> (spec_PortIdentifier spec \<noteq> [] \<longrightarrow>
        Contains (noPortMessage ac spec) (''port '' @ spec_PortIdentifier spec))
   \<and> (spec_ServiceName spec = [] \<and> spec_PortIdentifier spec = [] \<longrightarrow>
        noPortMessage ac spec = workloadText ac @ '' has no interceptable port'')"
proof (intro conjI impI)
  let ?w = "workloadText ac @ '' ''"
  let ?rest = "(if spec_ServiceName spec \<noteq> [] then
        (if spec_PortIdentifier spec \<noteq> []
         then '' matching service '' @ spec_ServiceName spec @ '', port '' @ spec_PortIdentifier spec
         else '' matching service '' @ spec_ServiceName spec)
      else if spec_PortIdentifier spec \<noteq> [] then '' matching port '' @ spec_PortIdentifier spec
      else [])"
  have "noPortMessage ac spec = ?w @ ''has no interceptable port'' @ ?rest"
    by (simp add: noPortMessage_def)
  then show "Contains (noPortMessage ac spec) ''has no interceptable port''"
    using Contains_append[of ?w "''has no interceptable port''" ?rest] by simp
next
  assume a: "spec_ServiceName spec \<noteq> []"
  let ?w = "workloadText ac @ '' has no interceptable port ''"
  let ?s = "''matching service '' @ spec_ServiceName spec"
  let ?rest = "(if spec_PortIdentifier spec \<noteq> [] then '', port '' @ spec_PortIdentifier spec else [])"
  have "noPortMessage ac spec = ?w @ ?s @ ?rest"
    using a by (simp add: noPortMessage_def)
  then show "Contains (noPortMessage ac spec) ?s"
    using Contains_append[of ?w ?s ?rest] by simp
next
  assume a: "spec_PortIdentifier spec \<noteq> []"
  let ?s = "''port '' @ spec_PortIdentifier spec"
  let ?w = "workloadText ac @ '' has no interceptable port'' @
     (if spec_ServiceName spec \<noteq> [] then '' matching service '' @ spec_ServiceName spec @ '', ''
      else '' matching '')"
  have "noPortMessage ac spec = ?w @ ?s"
    using a by (simp add: noPortMessage_def)
  then show "Contains (noPortMessage ac spec) ?s"
    using Contains_end[of ?w ?s] by simp
next
  assume "spec_ServiceName spec = [] \<and> spec_PortIdentifier spec = []"
  then show "noPortMessage ac spec = workloadText ac @ '' has no interceptable port''"
    by (simp add: noPortMessage_def)
qed

text \<open>
  C2, as stated, fails: with both the service name and the port identifier given and the rule
  declared twice, the message names no flag at all; it reports a broken configuration.
\<close>

theorem findIntercept_duplicate_counterexample:
  "\<exists>m. findIntercept byServicePortName byContainerPortName duplicateRule
          ((mkSpec ''x'' ''default'' ''127.0.0.1'' 8080)
             \<lparr> spec_ServiceName := ''svcA'', spec_PortIdentifier := ''http'' \<rparr>)
        = Inl (UserError m)
      \<and> \<not> Contains m ''--service'' \<and> \<not> Contains m ''--port''"
  by (simp add: findIntercept_def duplicateRule_def mkSidecar_def mkRule_def mkSpec_def
      ambiguityMessage_def workloadText_def byServicePortName_def chooseContainer_def
      HasPrefix_def)

text \<open>
  C2 (amended). \<open>matchingRules\<close> lists the declared (container, rule) pairs that pass the
  service-name and port-identifier tests, in visiting order.
  With no matching rule findIntercept fails with a User error whose text contains
  "has no interceptable port" and names the filters applied (the service and/or the port).
  With exactly one matching rule it returns that rule, paired with the container that
  declares it, or with the first container of the requested container name if there is one.
  With two or more matching rules it fails with a User error chosen by which of service name
  and port identifier were given: neither given, the text names --service and --port; only
  the port given, it names --service; only the service given, it names --port; both given,
  it names no flag and says that the service and port are declared more than once.
\<close>

theorem findIntercept_amended:
  "(matchingRules fs fc ac spec = [] \<longrightarrow>
      findIntercept fs fc ac spec = Inl (UserError (noPortMessage ac spec)))
   \<and> (\<forall>j ic. matchingRules fs fc ac spec = [(j, ic)] \<longrightarrow>
      findIntercept fs fc ac spec = Inr (chooseContainer ac spec j, ic))
   \<and> (2 \<le> length (matchingRules fs fc ac spec) \<longrightarrow>
      findIntercept fs fc ac spec = Inl (UserError (ambiguityMessage ac spec)))
   \<and> Contains (noPortMessage ac spec) ''has no interceptable port''
   \<and> (spec_ServiceName spec \<noteq> [] \<longrightarrow>
        Contains (noPortMessage ac spec) (''matching service '' @ spec_ServiceName spec))
   \<and> (spec_PortIdentifier spec \<noteq> [] \<longrightarrow>
        Contains (noPortMessage ac spec) (''port '' @ spec_PortIdentifier spec))
   \<and> (spec_ServiceName spec = [] \<and> spec_PortIdentifier spec = [] \<longrightarrow>
        Contains (ambiguityMessage ac spec) ''--service=<svc>''
        \<and> Contains (ambiguityMessage ac spec) ''--port=<local:portName/portNumber>'')
   \<and> (spec_ServiceName spec = [] \<and> spec_PortIdentifier spec \<noteq> [] \<longrightarrow>
        Contains (ambiguityMessage ac spec) ''--service=<svc>'')
   \<and> (spec_ServiceName spec \<noteq> [] \<and> spec_PortIdentifier spec = [] \<longrightarrow>
        Contains (ambiguityMessage ac spec) ''--port=<local:svcPortName>'')
   \<and> (spec_ServiceName spec \<noteq> [] \<and> spec_PortIdentifier spec \<noteq> [] \<longrightarrow>
        ambiguityMessage ac spec =
          workloadText ac @ '' intercept config is broken. Service '' @ spec_ServiceName spec
          @ '', port '' @ spec_PortIdentifier spec @ '' is declared more than once'' @ [CHR 0x0A])
   \<and> (spec_ContainerName spec = [] \<longrightarrow> (\<forall>j. chooseContainer ac spec j = j))"
proof -
  have m0: "matchingRules fs fc ac spec = [] \<longrightarrow>
      findIntercept fs fc ac spec = Inl (UserError (noPortMessage ac spec))"
    by (simp add: findIntercept_by_matches)
  have m1: "\<forall>j ic. matchingRules fs fc ac spec = [(j, ic)] \<longrightarrow>
      findIntercept fs fc ac spec = Inr (chooseContainer ac spec j, ic)"
    by (simp add: findIntercept_by_matches)
  have m2: "2 \<le> length (matchingRules fs fc ac spec) \<longrightarrow>
      findIntercept fs fc ac spec = Inl (UserError (ambiguityMessage ac spec))"
    by (auto simp: findIntercept_by_matches split: list.splits)
  have m4: "spec_ServiceName spec \<noteq> [] \<and> spec_PortIdentifier spec \<noteq> [] \<longrightarrow>
        ambiguityMessage ac spec =
          workloadText ac @ '' intercept config is broken. Service '' @ spec_ServiceName spec
          @ '', port '' @ spec_PortIdentifier spec @ '' is declared more than once'' @ [CHR 0x0A]"
    by (simp add: ambiguityMessage_def)
  have m5: "spec_ContainerName spec = [] \<longrightarrow> (\<forall>j. chooseContainer ac spec j = j)"
    by (simp add: chooseContainer_def)
  from m0 m1 m2 m4 m5 noPortMessage_filters[of ac spec] ambiguityMessage_flags[of spec ac]
  show ?thesis by blast
qed

theorem findIntercept_amended_witness:
  "findIntercept byServicePortName byContainerPortName twoServices
       ((mkSpec ''x'' ''default'' ''127.0.0.1'' 8080) \<lparr> spec_ServiceName := ''svcA'' \<rparr>)
     = Inr (0, mkRule ''svcA'' ''http'' 8080)
   \<and> findIntercept byServicePortName byContainerPortName twoServices
       ((mkSpec ''x'' ''default'' ''127.0.0.1'' 8080) \<lparr> spec_ServiceName := ''svcC'' \<rparr>)
     = Inl (UserError ''Deployment echo.default has no interceptable port matching service svcC'')
   \<and> (\<exists>m. findIntercept byServicePortName byContainerPortName twoServices
              (mkSpec ''x'' ''default'' ''127.0.0.1'' 8080) = Inl (UserError m)
          \<and> Contains m ''--service=<svc>'' \<and> Contains m ''--port=<local:portName/portNumber>'')"
  using
    findIntercept_amended[of byServicePortName byContainerPortName twoServices
       "(mkSpec ''x'' ''default'' ''127.0.0.1'' 8080) \<lparr> spec_ServiceName := ''svcA'' \<rparr>"]
    findIntercept_amended[of byServicePortName byContainerPortName twoServices
       "(mkSpec ''x'' ''default'' ''127.0.0.1'' 8080) \<lparr> spec_ServiceName := ''svcC'' \<rparr>"]
    findIntercept_amended[of byServicePortName byContainerPortName twoServices
       "mkSpec ''x'' ''default'' ''127.0.0.1'' 8080"]
  by (simp add: matchingRules_def declaredRules_def twoServices_def mkSidecar_def mkRule_def
      mkSpec_def ruleMatches_def byServicePortName_def chooseContainer_def noPortMessage_def
      workloadText_def)

subsection \<open>checkInterceptAnnotations and the eligibility gate of getOrCreateAgentConfig\<close>

lemma getOrCreateAgentConfig_rejects:
  assumes "checkInterceptAnnotations env wl \<noteq> Inr True"
  shows "\<exists>m. getOrCreateAgentConfig env wl extended spec departs st = Some (Inl (UserError m), st)"
proof (cases "checkInterceptAnnotations env wl")
  case (Inl err)
  then obtain m where "err = UserError m"
    by (auto simp: checkInterceptAnnotations_def afterSwitch_def Let_def
        split: option.splits if_splits)
  with Inl show ?thesis by (simp add: getOrCreateAgentConfig_def)
next
  case (Inr enabled)
  with assms have "\<not> enabled" by simp
  with Inr show ?thesis by (simp add: getOrCreateAgentConfig_def)
qed

text \<open>
  C7, as stated, fails: a workload that carries the manual-injection marker and whose
  inject annotation is \<open>disabled\<close> is eligible when its pod template declares the
  traffic-agent container, and an agent-config entry is then created for it.
\<close>

theorem checkInterceptAnnotations_manual_disabled_counterexample:
  "checkInterceptAnnotations sampleEnv
      (mkWorkload (Some [(''telepresence.getambassador.io/inject-traffic-agent'', ''disabled''),
                         (''telepresence.getambassador.io/manually-injected'', ''true'')])
                  [''app'', ''traffic-agent'']) = Inr True
   \<and> (\<exists>ac st'. getOrCreateAgentConfig sampleEnv
          (mkWorkload (Some [(''telepresence.getambassador.io/inject-traffic-agent'', ''disabled''),
                             (''telepresence.getambassador.io/manually-injected'', ''true'')])
                      [''app'', ''traffic-agent''])
          False None [] emptyState = Some (Inr ac, st')
        \<and> st_entries st' (''default'', ''echo'') = Some ''echo: {}'')"
  by (simp add: checkInterceptAnnotations_def afterSwitch_def annotation_def sampleEnv_def
      mkWorkload_def getOrCreateAgentConfig_def ValidateAgentImage_def updateCallback_def
      emptyState_def applySpec_def finishUpdate_def ValidateCreateAgent_def updateSidecar_def
      withSidecar_def)

text \<open>
  C7 (amended). A workload without annotations is eligible. Without the manual-injection
  marker the inject annotation decides: absent (empty) or \<open>enabled\<close> makes the workload
  eligible, \<open>false\<close> or \<open>disabled\<close> makes it not interceptable. With the marker (value
  \<open>true\<close>) a valid inject annotation has no influence: the workload is eligible exactly
  when its pod template declares the traffic-agent container, and is otherwise rejected
  with an error that says so. Any other value of the inject annotation is an error.
  A workload that is not eligible is rejected by getOrCreateAgentConfig with a User error
  and an unchanged state: no agent-config entry is created or updated.
\<close>

theorem checkInterceptAnnotations_amended:
  "(wl_Annotations wl = None \<longrightarrow> checkInterceptAnnotations env wl = Inr True)
   \<and> (\<forall>a. wl_Annotations wl = Some a \<and> annotation a (ManualInjectAnnotation env) \<noteq> ''true'' \<longrightarrow>
        (annotation a (InjectAnnotation env) = [] \<or> annotation a (InjectAnnotation env) = ''enabled''
            \<longrightarrow> checkInterceptAnnotations env wl = Inr True)
        \<and> (annotation a (InjectAnnotation env) = ''false''
             \<or> annotation a (InjectAnnotation env) = ''disabled''
            \<longrightarrow> checkInterceptAnnotations env wl = Inr False
                \<and> getOrCreateAgentConfig env wl extended spec departs st
                    = Some (Inl (UserError (wl_Kind wl @ '' '' @ wl_Name wl @ ''.'' @ wl_Namespace wl
                                   @ '' is not interceptable'')), st)))
   \<and> (\<forall>a. wl_Annotations wl = Some a \<and> annotation a (ManualInjectAnnotation env) = ''true''
          \<and> annotation a (InjectAnnotation env) \<in> {[], ''enabled'', ''false'', ''disabled''} \<longrightarrow>
        checkInterceptAnnotations env wl =
          (if ContainerName env \<in> set (wl_Containers wl) then Inr True
           else Inl (UserError (''annotation '' @ wl_Name wl @ ''.'' @ wl_Namespace wl @ ''/''
                  @ ManualInjectAnnotation env @ ''=true but pod has no traffic-agent container''))))
   \<and> (\<forall>a. wl_Annotations wl = Some a
          \<and> annotation a (InjectAnnotation env) \<notin> {[], ''enabled'', ''false'', ''disabled''} \<longrightarrow>
        (\<exists>m. checkInterceptAnnotations env wl = Inl (UserError m)))
   \<and> (checkInterceptAnnotations env wl \<noteq> Inr True \<longrightarrow>
        (\<exists>m. getOrCreateAgentConfig env wl extended spec departs st = Some (Inl (UserError m), st)))"
proof (intro conjI allI impI)
  assume "wl_Annotations wl = None"
  then show "checkInterceptAnnotations env wl = Inr True"
    by (simp add: checkInterceptAnnotations_def)
next
  fix a
  assume "wl_Annotations wl = Some a \<and> annotation a (ManualInjectAnnotation env) \<noteq> ''true''"
    and "annotation a (InjectAnnotation env) = [] \<or> annotation a (InjectAnnotation env) = ''enabled''"
  then show "checkInterceptAnnotations env wl = Inr True"
    by (auto simp: checkInterceptAnnotations_def afterSwitch_def)
next
  fix a
  assume a: "wl_Annotations wl = Some a \<and> annotation a (ManualInjectAnnotation env) \<noteq> ''true''"
    and b: "annotation a (InjectAnnotation env) = ''false''
             \<or> annotation a (InjectAnnotation env) = ''disabled''"
  then show c: "checkInterceptAnnotations env wl = Inr False"
    by (auto simp: checkInterceptAnnotations_def afterSwitch_def)
  then show "getOrCreateAgentConfig env wl extended spec departs st
                    = Some (Inl (UserError (wl_Kind wl @ '' '' @ wl_Name wl @ ''.'' @ wl_Namespace wl
                                   @ '' is not interceptable'')), st)"
    by (simp add: getOrCreateAgentConfig_def)
next
  fix a
  assume "wl_Annotations wl = Some a \<and> annotation a (ManualInjectAnnotation env) = ''true''
          \<and> annotation a (InjectAnnotation env) \<in> {[], ''enabled'', ''false'', ''disabled''}"
  then show "checkInterceptAnnotations env wl =
          (if ContainerName env \<in> set (wl_Containers wl) then Inr True
           else Inl (UserError (''annotation '' @ wl_Name wl @ ''.'' @ wl_Namespace wl @ ''/''
                  @ ManualInjectAnnotation env @ ''=true but pod has no traffic-agent container'')))"
    by (auto simp: checkInterceptAnnotations_def afterSwitch_def)
next
  fix a
  assume "wl_Annotations wl = Some a
          \<and> annotation a (InjectAnnotation env) \<notin> {[], ''enabled'', ''false'', ''disabled''}"
  then show "\<exists>m. checkInterceptAnnotations env wl = Inl (UserError m)"
    by (simp add: checkInterceptAnnotations_def)
next
  assume "checkInterceptAnnotations env wl \<noteq> Inr True"
  then show "\<exists>m. getOrCreateAgentConfig env wl extended spec departs st = Some (Inl (UserError m), st)"
    by (rule getOrCreateAgentConfig_rejects)
qed

theorem checkInterceptAnnotations_amended_witness:
  "checkInterceptAnnotations sampleEnv
      (mkWorkload (Some [(''telepresence.getambassador.io/inject-traffic-agent'', ''disabled'')])
         [''app'']) = Inr False
   \<and> getOrCreateAgentConfig sampleEnv
      (mkWorkload (Some [(''telepresence.getambassador.io/inject-traffic-agent'', ''disabled'')])
         [''app'']) False None [] emptyState
     = Some (Inl (UserError ''Deployment echo.default is not interceptable''), emptyState)
   \<and> checkInterceptAnnotations sampleEnv
      (mkWorkload (Some [(''telepresence.getambassador.io/manually-injected'', ''true'')])
         [''app''])
     = Inl (UserError ''annotation echo.default/telepresence.getambassador.io/manually-injected=true but pod has no traffic-agent container'')
   \<and> checkInterceptAnnotations sampleEnv
      (mkWorkload (Some [(''telepresence.getambassador.io/manually-injected'', ''true'')])
         [''app'', ''traffic-agent'']) = Inr True"
  using
    checkInterceptAnnotations_amended[of
      "mkWorkload (Some [(''telepresence.getambassador.io/inject-traffic-agent'', ''disabled'')]) [''app'']"
      sampleEnv False None "[]" emptyState]
    checkInterceptAnnotations_amended[of
      "mkWorkload (Some [(''telepresence.getambassador.io/manually-injected'', ''true'')]) [''app'']"
      sampleEnv False None "[]" emptyState]
    checkInterceptAnnotations_amended[of
      "mkWorkload (Some [(''telepresence.getambassador.io/manually-injected'', ''true'')]) [''app'', ''traffic-agent'']"
      sampleEnv False None "[]" emptyState]
  by (simp add: mkWorkload_def sampleEnv_def annotation_def)

subsection \<open>waitForAgents and writeEventList\<close>

lemma size_Contains: "Contains s s"
  using Contains_append[of "[]" s "[]"] by simp

lemma Contains_in_concat: "x \<in> set xs \<Longrightarrow> Contains (pre @ concat (map f xs)) (f x)"
proof -
  assume "x \<in> set xs"
  then obtain ys zs where "xs = ys @ x # zs" by (auto simp: in_set_conv_decomp)
  then have "pre @ concat (map f xs) = (pre @ concat (map f ys)) @ f x @ concat (map f zs)"
    by simp
  then show ?thesis using Contains_append[of "pre @ concat (map f ys)" "f x" "concat (map f zs)"]
    by simp
qed

lemma fold_max_ge_init:
  "l \<le> fold (\<lambda>e l. if length (cell e) > l then length (cell e) else l) es (l::nat)"
proof (induction es arbitrary: l)
  case Nil
  show ?case by simp
next
  case (Cons e es)
  have "(if length (cell e) > l then length (cell e) else l) \<ge> l" by simp
  with Cons.IH[of "if length (cell e) > l then length (cell e) else l"] show ?case
    by (simp del: if_split)
qed

lemma fold_max_ge_elem:
  "e \<in> set es \<Longrightarrow> length (cell e) \<le> fold (\<lambda>e l. if length (cell e) > l then length (cell e) else l) es (l::nat)"
proof (induction es arbitrary: l)
  case Nil
  then show ?case by simp
next
  case (Cons x es)
  show ?case
  proof (cases "e = x")
    case True
    have "length (cell x) \<le> (if length (cell x) > l then length (cell x) else l)" by simp
    with fold_max_ge_init[of "if length (cell x) > l then length (cell x) else l" cell es] True
    show ?thesis by (simp del: if_split)
  next
    case False
    with Cons.prems have "e \<in> set es" by simp
    from Cons.IH[OF this] show ?thesis by simp
  qed
qed

lemma columnLen_title: "length title + 3 \<le> columnLen title cell es"
  using fold_max_ge_init[of "length title" cell es] by (simp add: columnLen_def)

lemma columnLen_cell: "e \<in> set es \<Longrightarrow> length (cell e) + 3 \<le> columnLen title cell es"
  using fold_max_ge_elem[of e es cell "length title"] by (simp add: columnLen_def)

lemma padRight_wide: "length t + 3 \<le> w \<Longrightarrow> \<exists>n\<ge>3. padRight w t = t @ replicate n CHR '' '' \<and> length t + n = w"
  by (rule exI[of _ "w - length t"]) (simp add: padRight_def)


text \<open>Receptions that leave the loop waiting: an event that is buffered, or a snapshot
  without a usable agent.\<close>

lemma waitForAgentsLoop_skip:
  assumes "\<forall>ev \<in> set pre. passes st ev"
  shows "waitForAgentsLoop age name ns fes (pre @ rest) st
       = waitForAgentsLoop age name ns (fes @ bufferedOf pre) rest st"
  using assms
proof (induction pre arbitrary: fes)
  case Nil
  show ?case by (simp add: bufferedOf_def)
next
  case (Cons ev pre)
  then have p: "passes st ev" and q: "\<forall>ev \<in> set pre. passes st ev" by simp_all
  show ?case
  proof (cases ev)
    case (FailedCreate x)
    with p obtain fe where fe: "x = Some fe" "\<not> fatal fe" by (cases x) (auto simp: passes_def)
    then show ?thesis using Cons.IH[OF q, of "fes @ [fe]"] FailedCreate
      by (auto simp: fatal_def bufferedOf_def)
  next
    case (AgentSnapshot x)
    with p obtain snap where "x = Some snap" "usable st snap = []"
      by (cases x) (auto simp: passes_def)
    then show ?thesis using Cons.IH[OF q, of fes] AgentSnapshot
      by (auto simp: usable_def bufferedOf_def Let_def)
  next
    case (CtxDone e)
    with p show ?thesis by (simp add: passes_def)
  qed
qed

lemma waitForAgentsLoop_returns:
  "CtxDone e \<in> set evs \<Longrightarrow> \<exists>r. waitForAgentsLoop age name ns fes evs st = Some r"
proof (induction age name ns fes evs st rule: waitForAgentsLoop.induct)
  case (1 age name namespace fes st)
  then show ?case by simp
next
  case (3 age name namespace fes fe rest st)
  then show ?case by (auto split: option.splits)
next
  case (5 age name namespace fes snapshot rest st)
  then show ?case by (auto simp: Let_def)
qed simp_all


lemma eventLine_shape:
  assumes "length a + 3 \<le> columnLen ''AGE'' age es"
    and "length t + 3 \<le> columnLen ''TYPE'' ev_Type es"
    and "length r + 3 \<le> columnLen ''REASON'' ev_Reason es"
    and "length ob + 3 \<le> columnLen ''OBJECT'' object es"
  shows "\<exists>n1 n2 n3 n4. 3 \<le> n1 \<and> 3 \<le> n2 \<and> 3 \<le> n3 \<and> 3 \<le> n4
      \<and> eventLine age es a t r ob m
          = a @ replicate n1 CHR '' '' @ t @ replicate n2 CHR '' '' @ r @ replicate n3 CHR '' ''
            @ ob @ replicate n4 CHR '' '' @ m @ [CHR 0x0A]
      \<and> length a + n1 = columnLen ''AGE'' age es
      \<and> length t + n2 = columnLen ''TYPE'' ev_Type es
      \<and> length r + n3 = columnLen ''REASON'' ev_Reason es
      \<and> length ob + n4 = columnLen ''OBJECT'' object es"
proof -
  from padRight_wide[OF assms(1)] obtain n1 where n1: "3 \<le> n1"
    "padRight (columnLen ''AGE'' age es) a = a @ replicate n1 CHR '' ''"
    "length a + n1 = columnLen ''AGE'' age es" by blast
  from padRight_wide[OF assms(2)] obtain n2 where n2: "3 \<le> n2"
    "padRight (columnLen ''TYPE'' ev_Type es) t = t @ replicate n2 CHR '' ''"
    "length t + n2 = columnLen ''TYPE'' ev_Type es" by blast
  from padRight_wide[OF assms(3)] obtain n3 where n3: "3 \<le> n3"
    "padRight (columnLen ''REASON'' ev_Reason es) r = r @ replicate n3 CHR '' ''"
    "length r + n3 = columnLen ''REASON'' ev_Reason es" by blast
  from padRight_wide[OF assms(4)] obtain n4 where n4: "3 \<le> n4"
    "padRight (columnLen ''OBJECT'' object es) ob = ob @ replicate n4 CHR '' ''"
    "length ob + n4 = columnLen ''OBJECT'' object es" by blast
  have "eventLine age es a t r ob m
          = a @ replicate n1 CHR '' '' @ t @ replicate n2 CHR '' '' @ r @ replicate n3 CHR '' ''
            @ ob @ replicate n4 CHR '' '' @ m @ [CHR 0x0A]"
    unfolding eventLine_def n1(2) n2(2) n3(2) n4(2) by simp
  with n1 n2 n3 n4 show ?thesis by blast
qed

lemma header_shape:
  "\<exists>n1 n2 n3 n4. 3 \<le> n1 \<and> 3 \<le> n2 \<and> 3 \<le> n3 \<and> 3 \<le> n4
      \<and> eventLine age es ''AGE'' ''TYPE'' ''REASON'' ''OBJECT'' ''MESSAGE''
          = ''AGE'' @ replicate n1 CHR '' '' @ ''TYPE'' @ replicate n2 CHR '' '' @ ''REASON''
            @ replicate n3 CHR '' '' @ ''OBJECT'' @ replicate n4 CHR '' '' @ ''MESSAGE'' @ [CHR 0x0A]
      \<and> length ''AGE'' + n1 = columnLen ''AGE'' age es
      \<and> length ''TYPE'' + n2 = columnLen ''TYPE'' ev_Type es
      \<and> length ''REASON'' + n3 = columnLen ''REASON'' ev_Reason es
      \<and> length ''OBJECT'' + n4 = columnLen ''OBJECT'' object es"
  by (rule eventLine_shape) (rule columnLen_title)+

lemma row_shape:
  assumes "fe \<in> set es"
  shows "\<exists>n1 n2 n3 n4. 3 \<le> n1 \<and> 3 \<le> n2 \<and> 3 \<le> n3 \<and> 3 \<le> n4
      \<and> eventLine age es (age fe) (ev_Type fe) (ev_Reason fe) (object fe) (ev_Note fe)
          = age fe @ replicate n1 CHR '' '' @ ev_Type fe @ replicate n2 CHR '' '' @ ev_Reason fe
            @ replicate n3 CHR '' '' @ object fe @ replicate n4 CHR '' '' @ ev_Note fe @ [CHR 0x0A]
      \<and> length (age fe) + n1 = columnLen ''AGE'' age es
      \<and> length (ev_Type fe) + n2 = columnLen ''TYPE'' ev_Type es
      \<and> length (ev_Reason fe) + n3 = columnLen ''REASON'' ev_Reason es
      \<and> length (object fe) + n4 = columnLen ''OBJECT'' object es"
  by (rule eventLine_shape) (rule columnLen_cell[OF assms])+

lemma doneMessage_table:
  assumes "fes \<noteq> []"
  shows "Contains (doneMessage age name ns fes e)
           (eventLine age fes ''AGE'' ''TYPE'' ''REASON'' ''OBJECT'' ''MESSAGE'')"
    and "fe \<in> set fes \<Longrightarrow> Contains (doneMessage age name ns fes e)
           (eventLine age fes (age fe) (ev_Type fe) (ev_Reason fe) (object fe) (ev_Note fe))"
proof -
  let ?pre = "''request '' @ (if e = DeadlineExceeded then ''timed out'' else ''canceled'')
     @ '' while waiting for agent '' @ name @ ''.'' @ ns @ '' to arrive''
     @ '': Events that may be relevant:'' @ [CHR 0x0A]"
  let ?hdr = "eventLine age fes ''AGE'' ''TYPE'' ''REASON'' ''OBJECT'' ''MESSAGE''"
  let ?row = "\<lambda>e. eventLine age fes (age e) (ev_Type e) (ev_Reason e) (object e) (ev_Note e)"
  have eq: "doneMessage age name ns fes e = ?pre @ ?hdr @ concat (map ?row fes)"
    using assms by (simp add: doneMessage_def writeEventList_def)
  show "Contains (doneMessage age name ns fes e) ?hdr"
    unfolding eq by (rule Contains_append)
  assume "fe \<in> set fes"
  from Contains_in_concat[OF this, of "?pre @ ?hdr" ?row]
  show "Contains (doneMessage age name ns fes e) (?row fe)"
    unfolding eq by simp
qed

text \<open>
  C6, as stated, fails: a BackOff event is fatal also when its note names no container
  (the expression finds nothing); it is not buffered, and the agent snapshot that follows
  is not looked at.
\<close>

theorem waitForAgents_backoff_counterexample:
  "failedContainerRx ''default'' ''Back-off restarting failed container'' = None
   \<and> waitForAgents (\<lambda>e. ''5s'') ''echo'' ''default''
       [FailedCreate (Some (mkEvent ''Warning'' ''BackOff'' ''Back-off restarting failed container'')),
        AgentSnapshot (Some [mkAgent ''echo-7d9f''])] emptyState
     = Some (Inl (UserError (''Back-off restarting failed container'' @ [CHR 0x0A]
                    @ ''The logs of Pod echo-7d9f might provide more details'')), emptyState)"
  by (simp add: waitForAgents_def mkEvent_def backOffMessage_def matchAt_def HasPrefix_def)

text \<open>
  C6 (amended). Let the loop first receive any receptions that leave it waiting (events
  that are not fatal, snapshots that are empty or hold blacklisted agents only).
  A fatal event ends the wait at once with a User error built from the event's note: an
  event of reason BackOff, whether or not its note names a container (the name only decides
  whether that container's log is fetched), or an event of reason Failed, FailedCreate or
  FailedScheduling that is not a Warning with one of the known transient texts.
  Every other event is buffered and the loop goes on.
  The first snapshot with an agent that is not blacklisted ends the wait with the agents
  that are not blacklisted.
  When the context is done the wait fails with a User error; if events were buffered its
  text contains a table: a title line AGE, TYPE, REASON, OBJECT, MESSAGE and one line per
  buffered event (age, type, reason, lower-cased kind/name, note), the first four columns
  padded to a common width that leaves at least three spaces.
\<close>

theorem waitForAgents_amended:
  assumes "\<forall>ev \<in> set pre. passes st ev"
  shows "(ev_Reason fe = ''BackOff'' \<longrightarrow>
            waitForAgents age name ns (pre @ FailedCreate (Some fe) # rest) st
              = Some (Inl (UserError (backOffMessage fe)),
                      (case failedContainerRx ns (ev_Note fe) of
                         Some (cn, pod) \<Rightarrow> st \<lparr> st_trace := st_trace st @ [EvGetLogs pod cn] \<rparr>
                       | None \<Rightarrow> st)))
    \<and> (fatal fe \<and> ev_Reason fe \<noteq> ''BackOff'' \<longrightarrow>
            waitForAgents age name ns (pre @ FailedCreate (Some fe) # rest) st
              = Some (Inl (UserError (failedMessage fe)), st))
    \<and> (\<not> fatal fe \<longrightarrow>
            waitForAgents age name ns (pre @ FailedCreate (Some fe) # rest) st
              = waitForAgentsLoop age name ns (bufferedOf pre @ [fe]) rest st)
    \<and> (usable st snapshot \<noteq> [] \<longrightarrow>
            waitForAgents age name ns (pre @ AgentSnapshot (Some snapshot) # rest) st
              = Some (Inr (usable st snapshot), st))
    \<and> waitForAgents age name ns (pre @ CtxDone e # rest) st
         = Some (Inl (UserError (doneMessage age name ns (bufferedOf pre) e)), st)
    \<and> (bufferedOf pre \<noteq> [] \<longrightarrow>
         Contains (doneMessage age name ns (bufferedOf pre) e)
           (eventLine age (bufferedOf pre) ''AGE'' ''TYPE'' ''REASON'' ''OBJECT'' ''MESSAGE'')
         \<and> (\<forall>b \<in> set (bufferedOf pre).
              Contains (doneMessage age name ns (bufferedOf pre) e)
                (eventLine age (bufferedOf pre) (age b) (ev_Type b) (ev_Reason b) (object b) (ev_Note b))))
    \<and> (\<exists>n1 n2 n3 n4. 3 \<le> n1 \<and> 3 \<le> n2 \<and> 3 \<le> n3 \<and> 3 \<le> n4
         \<and> eventLine age (bufferedOf pre) ''AGE'' ''TYPE'' ''REASON'' ''OBJECT'' ''MESSAGE''
             = ''AGE'' @ replicate n1 CHR '' '' @ ''TYPE'' @ replicate n2 CHR '' '' @ ''REASON''
               @ replicate n3 CHR '' '' @ ''OBJECT'' @ replicate n4 CHR '' '' @ ''MESSAGE'' @ [CHR 0x0A]
         \<and> length ''AGE'' + n1 = columnLen ''AGE'' age (bufferedOf pre)
         \<and> length ''TYPE'' + n2 = columnLen ''TYPE'' ev_Type (bufferedOf pre)
         \<and> length ''REASON'' + n3 = columnLen ''REASON'' ev_Reason (bufferedOf pre)
         \<and> length ''OBJECT'' + n4 = columnLen ''OBJECT'' object (bufferedOf pre))
    \<and> (\<forall>b \<in> set (bufferedOf pre). \<exists>n1 n2 n3 n4. 3 \<le> n1 \<and> 3 \<le> n2 \<and> 3 \<le> n3 \<and> 3 \<le> n4
         \<and> eventLine age (bufferedOf pre) (age b) (ev_Type b) (ev_Reason b) (object b) (ev_Note b)
             = age b @ replicate n1 CHR '' '' @ ev_Type b @ replicate n2 CHR '' '' @ ev_Reason b
               @ replicate n3 CHR '' '' @ object b @ replicate n4 CHR '' '' @ ev_Note b @ [CHR 0x0A]
         \<and> length (age b) + n1 = columnLen ''AGE'' age (bufferedOf pre)
         \<and> length (ev_Type b) + n2 = columnLen ''TYPE'' ev_Type (bufferedOf pre)
         \<and> length (ev_Reason b) + n3 = columnLen ''REASON'' ev_Reason (bufferedOf pre)
         \<and> length (object b) + n4 = columnLen ''OBJECT'' object (bufferedOf pre))
    \<and> (\<forall>evs. CtxDone e \<in> set evs \<longrightarrow> (\<exists>r. waitForAgents age name ns evs st = Some r))"
proof -
  note skip = waitForAgentsLoop_skip[OF assms, of age name ns "[]", simplified]
  have 1: "ev_Reason fe = ''BackOff'' \<longrightarrow>
            waitForAgents age name ns (pre @ FailedCreate (Some fe) # rest) st
              = Some (Inl (UserError (backOffMessage fe)),
                      (case failedContainerRx ns (ev_Note fe) of
                         Some (cn, pod) \<Rightarrow> st \<lparr> st_trace := st_trace st @ [EvGetLogs pod cn] \<rparr>
                       | None \<Rightarrow> st))"
    by (simp add: waitForAgents_def skip)
  have 2: "fatal fe \<and> ev_Reason fe \<noteq> ''BackOff'' \<longrightarrow>
            waitForAgents age name ns (pre @ FailedCreate (Some fe) # rest) st
              = Some (Inl (UserError (failedMessage fe)), st)"
    by (auto simp: waitForAgents_def skip fatal_def)
  have 3: "\<not> fatal fe \<longrightarrow>
            waitForAgents age name ns (pre @ FailedCreate (Some fe) # rest) st
              = waitForAgentsLoop age name ns (bufferedOf pre @ [fe]) rest st"
    by (auto simp: waitForAgents_def skip fatal_def)
  have 4: "usable st snapshot \<noteq> [] \<longrightarrow>
            waitForAgents age name ns (pre @ AgentSnapshot (Some snapshot) # rest) st
              = Some (Inr (usable st snapshot), st)"
    by (auto simp: waitForAgents_def skip usable_def Let_def)
  have 5: "waitForAgents age name ns (pre @ CtxDone e # rest) st
         = Some (Inl (UserError (doneMessage age name ns (bufferedOf pre) e)), st)"
    by (simp add: waitForAgents_def skip)
  have 6: "bufferedOf pre \<noteq> [] \<longrightarrow>
         Contains (doneMessage age name ns (bufferedOf pre) e)
           (eventLine age (bufferedOf pre) ''AGE'' ''TYPE'' ''REASON'' ''OBJECT'' ''MESSAGE'')
         \<and> (\<forall>b \<in> set (bufferedOf pre).
              Contains (doneMessage age name ns (bufferedOf pre) e)
                (eventLine age (bufferedOf pre) (age b) (ev_Type b) (ev_Reason b) (object b) (ev_Note b)))"
    using doneMessage_table[where fes="bufferedOf pre" and age=age and name=name and ns=ns and e=e] by blast
  have 9: "\<forall>evs. CtxDone e \<in> set evs \<longrightarrow> (\<exists>r. waitForAgents age name ns evs st = Some r)"
    using waitForAgentsLoop_returns[of e _ age name ns "[]" st] by (simp add: waitForAgents_def)
  from 1 2 3 4 5 6 header_shape[of age "bufferedOf pre"] row_shape[of _ "bufferedOf pre" age] 9
  show ?thesis by (intro conjI ballI) assumption+
qed


theorem waitForAgents_amended_witness:
  "waitForAgents (\<lambda>e. ''5s'') ''echo'' ''default''
       [FailedCreate (Some transientEvent), FailedCreate (Some crashLoopEvent)] emptyState
     = Some (Inl (UserError
         (''Back-off restarting failed container traffic-agent in pod echo-7d9f_default(12ab)''
          @ [CHR 0x0A] @ ''The logs of Pod echo-7d9f might provide more details'')),
         emptyState \<lparr> st_trace := [EvGetLogs ''echo-7d9f'' ''traffic-agent''] \<rparr>)
   \<and> waitForAgents (\<lambda>e. ''5s'') ''echo'' ''default''
       [FailedCreate (Some transientEvent), AgentSnapshot (Some [mkAgent ''echo-7d9f''])] emptyState
     = Some (Inr [mkAgent ''echo-7d9f''], emptyState)
   \<and> waitForAgents (\<lambda>e. ''5s'') ''echo'' ''default''
       [FailedCreate (Some transientEvent), CtxDone DeadlineExceeded] emptyState
     = Some (Inl (UserError
         (''request timed out while waiting for agent echo.default to arrive: Events that may be relevant:''
          @ [CHR 0x0A] @ ''AGE   TYPE      REASON             OBJECT          MESSAGE''
          @ [CHR 0x0A] @ ''5s    Warning   FailedScheduling   pod/echo-7d9f   0/3 nodes are available''
          @ [CHR 0x0A])), emptyState)"
proof -
  have t: "transientFailure transientEvent"
    by (simp add: transientFailure_def transientEvent_def mkEvent_def HasPrefix_def)
  have h: "\<forall>ev \<in> set [FailedCreate (Some transientEvent)]. passes emptyState ev"
    using t by (simp add: passes_def fatal_def transientEvent_def mkEvent_def)
  have rx: "failedContainerRx ''default'' (ev_Note crashLoopEvent) = Some (''traffic-agent'', ''echo-7d9f'')"
    by (simp add: crashLoopEvent_def mkEvent_def matchAt_def HasPrefix_def isSpace_def
        isPodChar_def Let_def)
  have u: "usable emptyState [mkAgent ''echo-7d9f''] = [mkAgent ''echo-7d9f'']"
    by (simp add: usable_def IsBlacklisted_def emptyState_def)
  have b: "bufferedOf [FailedCreate (Some transientEvent)] = [transientEvent]"
    by (simp add: bufferedOf_def)
  have d: "doneMessage (\<lambda>e. ''5s'') ''echo'' ''default'' [transientEvent] DeadlineExceeded
     = ''request timed out while waiting for agent echo.default to arrive: Events that may be relevant:''
          @ [CHR 0x0A] @ ''AGE   TYPE      REASON             OBJECT          MESSAGE''
          @ [CHR 0x0A] @ ''5s    Warning   FailedScheduling   pod/echo-7d9f   0/3 nodes are available''
          @ [CHR 0x0A]"
    by code_simp
  note w = waitForAgents_amended[OF h, where fe=crashLoopEvent and age="\<lambda>e. ''5s''"
      and name="''echo''" and ns="''default''" and rest="[]" and snapshot="[mkAgent ''echo-7d9f'']"
      and e=DeadlineExceeded]
  have r: "ev_Reason crashLoopEvent = ''BackOff''"
    by (simp add: crashLoopEvent_def mkEvent_def)
  have m: "backOffMessage crashLoopEvent
      = ''Back-off restarting failed container traffic-agent in pod echo-7d9f_default(12ab)''
          @ [CHR 0x0A] @ ''The logs of Pod echo-7d9f might provide more details''"
    by (simp add: backOffMessage_def crashLoopEvent_def mkEvent_def)
  have tr: "st_trace emptyState = []" by (simp add: emptyState_def)
  from w[THEN conjunct1, rule_format, OF r]
  have g1: "waitForAgents (\<lambda>e. ''5s'') ''echo'' ''default''
       [FailedCreate (Some transientEvent), FailedCreate (Some crashLoopEvent)] emptyState
     = Some (Inl (UserError
         (''Back-off restarting failed container traffic-agent in pod echo-7d9f_default(12ab)''
          @ [CHR 0x0A] @ ''The logs of Pod echo-7d9f might provide more details'')),
         emptyState \<lparr> st_trace := [EvGetLogs ''echo-7d9f'' ''traffic-agent''] \<rparr>)"
    unfolding rx m by (simp add: tr)
  from w[THEN conjunct2, THEN conjunct2, THEN conjunct2, THEN conjunct1]
  have g2: "waitForAgents (\<lambda>e. ''5s'') ''echo'' ''default''
       [FailedCreate (Some transientEvent), AgentSnapshot (Some [mkAgent ''echo-7d9f''])] emptyState
     = Some (Inr [mkAgent ''echo-7d9f''], emptyState)"
    unfolding u by simp
  from w[THEN conjunct2, THEN conjunct2, THEN conjunct2, THEN conjunct2, THEN conjunct1]
  have g3: "waitForAgents (\<lambda>e. ''5s'') ''echo'' ''default''
       [FailedCreate (Some transientEvent), CtxDone DeadlineExceeded] emptyState
     = Some (Inl (UserError
         (''request timed out while waiting for agent echo.default to arrive: Events that may be relevant:''
          @ [CHR 0x0A] @ ''AGE   TYPE      REASON             OBJECT          MESSAGE''
          @ [CHR 0x0A] @ ''5s    Warning   FailedScheduling   pod/echo-7d9f   0/3 nodes are available''
          @ [CHR 0x0A])), emptyState)"
    unfolding b d by simp
  from g1 g2 g3 show ?thesis by (intro conjI)
qed

subsection \<open>ensureAgent\<close>

lemma keeps_refl: "keeps st st"
  by (simp add: keeps_def)

lemma keeps_trans: "keeps a b \<Longrightarrow> keeps b c \<Longrightarrow> keeps a c"
  by (auto simp: keeps_def)

lemma updateSidecar_keeps: "updateSidecar env sce ns n st = (r, st') \<Longrightarrow> keeps st st'"
  by (auto simp: updateSidecar_def keeps_def Let_def split: sum.splits if_splits)

lemma finishUpdate_keeps: "finishUpdate env wl cmFound sce doUpdate st = (r, st') \<Longrightarrow> keeps st st'"
proof -
  assume a: "finishUpdate env wl cmFound sce doUpdate st = (r, st')"
  have k: "keeps st (st \<lparr> st_inactive := st_inactive st
                     @ map fst (getAgentsByName st (wl_Name wl) (wl_Namespace wl)) \<rparr>)"
    by (simp add: keeps_def)
  from a show ?thesis
    by (auto simp: finishUpdate_def ValidateCreateAgent_def keeps_refl
        split: if_splits dest: updateSidecar_keeps keeps_trans[OF k])
qed

lemma withSidecar_keeps:
  "withSidecar sce (finishUpdate env wl cmFound sce' doUpdate st) = (r, st') \<Longrightarrow> keeps st st'"
  by (cases "finishUpdate env wl cmFound sce' doUpdate st")
     (auto simp: withSidecar_def split: sum.splits dest: finishUpdate_keeps)

lemma applySpec_keeps: "applySpec env wl spec cmFound sce doUpdate st = (r, st') \<Longrightarrow> keeps st st'"
  by (auto simp: applySpec_def Let_def keeps_refl split: option.splits sum.splits if_splits
      dest: withSidecar_keeps)

lemma updateCallback_keeps:
  "updateCallback env wl extended spec departs st = Some (r, st') \<Longrightarrow> keeps st st'"
  by (auto simp: updateCallback_def keeps_refl split: option.splits sum.splits if_splits
      dest: applySpec_keeps)

lemma keeps_snoc_update: "keeps st st' \<Longrightarrow> keeps st (st' \<lparr> st_trace := st_trace st' @ [EvUpdate ns c] \<rparr>)"
  by (auto simp: keeps_def)

lemma getOrCreateAgentConfig_keeps:
  "getOrCreateAgentConfig env wl extended spec departs st = Some (r, st') \<Longrightarrow> keeps st st'"
  by (auto simp: getOrCreateAgentConfig_def keeps_refl
      split: sum.splits if_splits option.splits prod.splits
      dest!: updateCallback_keeps intro: keeps_snoc_update)

lemma waitForAgentsLoop_keeps:
  "waitForAgentsLoop age name ns fes evs st = Some (r, st') \<Longrightarrow> keeps st st'"
proof (induction age name ns fes evs st rule: waitForAgentsLoop.induct)
  case (3 age name namespace fes fe rest st)
  then show ?case
    by (auto simp: keeps_refl split: if_splits option.splits) (auto simp: keeps_def)
next
  case (5 age name namespace fes snapshot rest st)
  then show ?case by (auto simp: keeps_refl Let_def split: if_splits)
qed (auto simp: keeps_refl)


lemma waitForDeparture_returns:
  "DepartCtxDone e \<in> set departs \<Longrightarrow> \<exists>r. waitForDeparture departs = Some r"
  by (induction departs rule: waitForDeparture.induct) auto

lemma getOrCreateAgentConfig_returns:
  assumes "DepartCtxDone e \<in> set departs"
  shows "\<exists>r. getOrCreateAgentConfig env wl extended spec departs st = Some r"
proof -
  from waitForDeparture_returns[OF assms] obtain d where d: "waitForDeparture departs = Some d"
    by blast
  have "\<exists>r. updateCallback env wl extended spec departs st = Some r"
    by (cases d) (auto simp: updateCallback_def d split: option.splits sum.splits)
  then show ?thesis
    by (auto simp: getOrCreateAgentConfig_def split: sum.splits option.splits prod.splits)
qed

text \<open>
  C8. With the injector enabled and the event watch started: when getOrCreateAgentConfig
  has succeeded (the entry was created, updated or found current) and the wait for an agent
  fails, for whatever reason, ensureAgent calls the mutator map's Delete for the workload
  as its last effect and returns the wait's error; if the Delete succeeds the workload has
  no entry afterwards. On every other path that returns, nothing that ensureAgent did
  is a Delete and no entry has disappeared. ensureAgent returns once both waits have seen
  the context done.
\<close>

theorem ensureAgent_drops_entry_on_wait_failure:
  "(\<forall>ac st1 err st2.
       AgentInjectorEnabled env \<and> watchErr = None
       \<and> getOrCreateAgentConfig env wl extended spec departs st = Some (Inr ac, st1)
       \<and> waitForAgents age (ac_AgentName ac) (ac_Namespace ac) evs st1 = Some (Inl err, st2) \<longrightarrow>
       keeps st st2
       \<and> ensureAgent env age wl extended spec watchErr departs evs deleteErr st
           = Some (Inl err,
                   st2 \<lparr> st_entries := (if deleteErr = None
                                          then (st_entries st2)((wl_Namespace wl, wl_Name wl) := None)
                                          else st_entries st2),
                         st_trace := st_trace st2 @ [EvDelete (wl_Name wl) (wl_Namespace wl)] \<rparr>))
   \<and> (\<forall>r st'.
       ensureAgent env age wl extended spec watchErr departs evs deleteErr st = Some (r, st')
       \<and> \<not> (AgentInjectorEnabled env \<and> watchErr = None
            \<and> (\<exists>ac st1 err st2.
                  getOrCreateAgentConfig env wl extended spec departs st = Some (Inr ac, st1)
                  \<and> waitForAgents age (ac_AgentName ac) (ac_Namespace ac) evs st1
                      = Some (Inl err, st2))) \<longrightarrow>
       keeps st st')
   \<and> ((\<exists>e. DepartCtxDone e \<in> set departs) \<and> (\<exists>e. CtxDone e \<in> set evs) \<longrightarrow>
       (\<exists>r. ensureAgent env age wl extended spec watchErr departs evs deleteErr st = Some r))"
proof (intro conjI allI impI)
  fix ac st1 err st2
  assume a: "AgentInjectorEnabled env \<and> watchErr = None
       \<and> getOrCreateAgentConfig env wl extended spec departs st = Some (Inr ac, st1)
       \<and> waitForAgents age (ac_AgentName ac) (ac_Namespace ac) evs st1 = Some (Inl err, st2)"
  then have "keeps st st1" "keeps st1 st2"
    by (auto simp: waitForAgents_def dest: getOrCreateAgentConfig_keeps waitForAgentsLoop_keeps)
  then show "keeps st st2" by (rule keeps_trans)
  from a show "ensureAgent env age wl extended spec watchErr departs evs deleteErr st
           = Some (Inl err,
                   st2 \<lparr> st_entries := (if deleteErr = None
                                          then (st_entries st2)((wl_Namespace wl, wl_Name wl) := None)
                                          else st_entries st2),
                         st_trace := st_trace st2 @ [EvDelete (wl_Name wl) (wl_Namespace wl)] \<rparr>)"
    by (simp add: ensureAgent_def dropAgentConfig_def)
next
  fix r st'
  assume a: "ensureAgent env age wl extended spec watchErr departs evs deleteErr st = Some (r, st')
       \<and> \<not> (AgentInjectorEnabled env \<and> watchErr = None
            \<and> (\<exists>ac st1 err st2.
                  getOrCreateAgentConfig env wl extended spec departs st = Some (Inr ac, st1)
                  \<and> waitForAgents age (ac_AgentName ac) (ac_Namespace ac) evs st1
                      = Some (Inl err, st2)))"
  show "keeps st st'"
  proof (cases "AgentInjectorEnabled env")
    case False
    with a show ?thesis
      by (auto simp: ensureAgent_def keeps_refl split: option.splits sum.splits)
  next
    case True
    show ?thesis
    proof (cases watchErr)
      case (Some e)
      with a True show ?thesis by (simp add: ensureAgent_def keeps_refl)
    next
      case None
      show ?thesis
      proof (cases "getOrCreateAgentConfig env wl extended spec departs st")
        case n: None
        with a True None show ?thesis by (simp add: ensureAgent_def)
      next
        case (Some p)
        obtain g st1 where p: "p = (g, st1)" by (cases p)
        from Some p have k1: "keeps st st1" by (auto dest: getOrCreateAgentConfig_keeps)
        show ?thesis
        proof (cases g)
          case (Inl e)
          with a True None Some p k1 show ?thesis by (simp add: ensureAgent_def)
        next
          case (Inr ac)
          show ?thesis
          proof (cases "waitForAgents age (ac_AgentName ac) (ac_Namespace ac) evs st1")
            case n: None
            with a True None Some p Inr show ?thesis by (simp add: ensureAgent_def)
          next
            case s: (Some q)
            obtain w st2 where q: "q = (w, st2)" by (cases q)
            from s q have k2: "keeps st1 st2"
              by (auto simp: waitForAgents_def dest: waitForAgentsLoop_keeps)
            show ?thesis
            proof (cases w)
              case l: (Inl e)
              with a True None Some p Inr s q show ?thesis by simp
            next
              case r: (Inr as)
              with a True None Some p Inr s q have "st' = st2" by (simp add: ensureAgent_def)
              with k1 k2 show ?thesis by (auto intro: keeps_trans)
            qed
          qed
        qed
      qed
    qed
  qed
next
  assume a: "(\<exists>e. DepartCtxDone e \<in> set departs) \<and> (\<exists>e. CtxDone e \<in> set evs)"
  then obtain e1 e2 where e1: "DepartCtxDone e1 \<in> set departs" and e2: "CtxDone e2 \<in> set evs"
    by blast
  from getOrCreateAgentConfig_returns[OF e1] obtain g st1
    where g: "getOrCreateAgentConfig env wl extended spec departs st = Some (g, st1)" by fastforce
  have w: "\<And>n ns s. \<exists>r. waitForAgents age n ns evs s = Some r"
    using waitForAgentsLoop_returns[OF e2] by (simp add: waitForAgents_def)
  show "\<exists>r. ensureAgent env age wl extended spec watchErr departs evs deleteErr st = Some r"
  proof (cases g)
    case (Inl e)
    with g show ?thesis by (auto simp: ensureAgent_def split: option.splits sum.splits)
  next
    case (Inr ac)
    from w[of "ac_AgentName ac" "ac_Namespace ac" st1] obtain x s2
      where "waitForAgents age (ac_AgentName ac) (ac_Namespace ac) evs st1 = Some (x, s2)"
      by fastforce
    with g Inr show ?thesis
      by (cases x) (auto simp: ensureAgent_def split: option.splits sum.splits)
  qed
qed


theorem ensureAgent_drops_entry_on_wait_failure_witness:
  "(\<exists>st'. ensureAgent sampleEnv (\<lambda>e. ''5s'') (mkWorkload None [''app'']) False None None
             [DepartCtxDone (PlainError ''context deadline exceeded'')]
             [CtxDone DeadlineExceeded] None emptyState
           = Some (Inl (UserError ''request timed out while waiting for agent echo.default to arrive''), st')
         \<and> st_entries st' (''default'', ''echo'') = None
         \<and> st_trace st' = [EvUpdate ''default'' True, EvDelete ''echo'' ''default''])
   \<and> (\<exists>r st'. ensureAgent sampleEnv (\<lambda>e. ''5s'') (mkWorkload None [''app'']) False None None
             [DepartCtxDone (PlainError ''context deadline exceeded'')]
             [AgentSnapshot (Some [mkAgent ''echo-7d9f''])] None emptyState = Some (r, st')
         \<and> keeps emptyState st'
         \<and> st_entries st' (''default'', ''echo'') = Some ''echo: {}'')"
proof -
  let ?wl = "mkWorkload None [''app'']"
  let ?dep = "[DepartCtxDone (PlainError ''context deadline exceeded'')]"
  let ?age = "\<lambda>e::Event. ''5s''"
  have "\<exists>ac st1. getOrCreateAgentConfig sampleEnv ?wl False None ?dep emptyState = Some (Inr ac, st1)
      \<and> ac_AgentName ac = ''echo'' \<and> ac_Namespace ac = ''default''
      \<and> st_trace st1 = [EvUpdate ''default'' True]
      \<and> st_entries st1 (''default'', ''echo'') = Some ''echo: {}''
      \<and> st_blacklist st1 = []"
    by (simp add: checkInterceptAnnotations_def sampleEnv_def
      mkWorkload_def getOrCreateAgentConfig_def ValidateAgentImage_def updateCallback_def
      emptyState_def applySpec_def finishUpdate_def ValidateCreateAgent_def updateSidecar_def
      withSidecar_def)
  then obtain ac st1 where
    g: "getOrCreateAgentConfig sampleEnv ?wl False None ?dep emptyState = Some (Inr ac, st1)"
    and n: "ac_AgentName ac = ''echo''" "ac_Namespace ac = ''default''"
    and t1: "st_trace st1 = [EvUpdate ''default'' True]"
    and e1: "st_entries st1 (''default'', ''echo'') = Some ''echo: {}''"
    and b1: "st_blacklist st1 = []" by blast
  have en: "AgentInjectorEnabled sampleEnv" by (simp add: sampleEnv_def)
  have wln: "wl_Name ?wl = ''echo''" "wl_Namespace ?wl = ''default''" by (simp_all add: mkWorkload_def)
  have w1: "waitForAgents ?age (ac_AgentName ac) (ac_Namespace ac) [CtxDone DeadlineExceeded] st1
      = Some (Inl (UserError ''request timed out while waiting for agent echo.default to arrive''), st1)"
    by (simp add: n waitForAgents_def doneMessage_def)
  have w2: "waitForAgents ?age (ac_AgentName ac) (ac_Namespace ac)
        [AgentSnapshot (Some [mkAgent ''echo-7d9f''])] st1
      = Some (Inr [mkAgent ''echo-7d9f''], st1)"
    by (simp add: n waitForAgents_def IsBlacklisted_def b1)
  note th1 = ensureAgent_drops_entry_on_wait_failure[where env=sampleEnv and watchErr=None
      and wl="?wl" and extended=False and spec=None and departs="?dep" and st=emptyState
      and age="?age" and evs="[CtxDone DeadlineExceeded]" and deleteErr=None]
  from th1[THEN conjunct1, rule_format, of ac st1 _ st1] en g w1
  have r1: "ensureAgent sampleEnv ?age ?wl False None None ?dep [CtxDone DeadlineExceeded] None emptyState
     = Some (Inl (UserError ''request timed out while waiting for agent echo.default to arrive''),
             st1 \<lparr> st_entries := (st_entries st1)((''default'', ''echo'') := None),
                   st_trace := st_trace st1 @ [EvDelete ''echo'' ''default''] \<rparr>)"
    by (simp add: wln)
  note th2 = ensureAgent_drops_entry_on_wait_failure[where env=sampleEnv and watchErr=None
      and wl="?wl" and extended=False and spec=None and departs="?dep" and st=emptyState
      and age="?age" and evs="[AgentSnapshot (Some [mkAgent ''echo-7d9f''])]" and deleteErr=None]
  have r2: "ensureAgent sampleEnv ?age ?wl False None None ?dep
      [AgentSnapshot (Some [mkAgent ''echo-7d9f''])] None emptyState
     = Some (Inr (ac, sortAgents [mkAgent ''echo-7d9f'']), st1)"
    by (simp add: ensureAgent_def en g w2)
  have nf: "\<not> (AgentInjectorEnabled sampleEnv \<and> (None::error option) = None
            \<and> (\<exists>ac st1 err st2.
                  getOrCreateAgentConfig sampleEnv ?wl False None ?dep emptyState = Some (Inr ac, st1)
                  \<and> waitForAgents ?age (ac_AgentName ac) (ac_Namespace ac)
                        [AgentSnapshot (Some [mkAgent ''echo-7d9f''])] st1
                      = Some (Inl err, st2)))"
    by (simp add: g w2)
  from th2[THEN conjunct2, THEN conjunct1, rule_format, of _ st1] r2 nf
  have k: "keeps emptyState st1" by blast
  from r1 t1 have p1: "\<exists>st'. ensureAgent sampleEnv ?age ?wl False None None ?dep
             [CtxDone DeadlineExceeded] None emptyState
           = Some (Inl (UserError ''request timed out while waiting for agent echo.default to arrive''), st')
         \<and> st_entries st' (''default'', ''echo'') = None
         \<and> st_trace st' = [EvUpdate ''default'' True, EvDelete ''echo'' ''default'']"
    by simp
  from r2 k e1 have p2: "\<exists>r st'. ensureAgent sampleEnv ?age ?wl False None None ?dep
             [AgentSnapshot (Some [mkAgent ''echo-7d9f''])] None emptyState = Some (r, st')
         \<and> keeps emptyState st'
         \<and> st_entries st' (''default'', ''echo'') = Some ''echo: {}''"
    by simp
  from p1 p2 show ?thesis by (rule conjI)
qed

subsection \<open>The wait loop of AddIntercept\<close>

lemma waitLoop_passedOver:
  "\<forall>wr \<in> set pre. passedOver wr \<Longrightarrow>
   waitLoop ct ep ii result (map Notified pre @ rest) m = waitLoop ct ep (lastInfo ii pre) result rest m"
proof (induction pre arbitrary: ii)
  case Nil
  show ?case by (simp add: lastInfo_def)
next
  case (Cons wr pre)
  then have "passedOver wr" and "\<forall>wr \<in> set pre. passedOver wr" by simp_all
  with Cons.IH[of "ic_info (ir_intercept wr)"] show ?case
    by (simp add: passedOver_def lastInfo_def Let_def)
qed

lemma waitLoop_success:
  "waitLoop ct ep ii result outs m = Some (r, True, ii') \<Longrightarrow>
   m = Some MountsDone
   \<and> (\<exists>wr. Notified wr \<in> set outs \<and> ir_err wr = None \<and> ic_info (ir_intercept wr) = ii'
          \<and> ii_Disposition ii' = ACTIVE \<and> r = result \<lparr> res_InterceptInfo := Some ii' \<rparr>)"
proof (induction ct ep ii result outs m rule: waitLoop.induct)
  case (1 CheckTimeout InterceptEpilog ii result mounts)
  then show ?case by simp
next
  case (2 CheckTimeout InterceptEpilog ii result e rest mounts)
  then show ?case by simp
next
  case (3 CheckTimeout InterceptEpilog ii result wr rest mounts)
  show ?case
  proof (cases "ir_err wr")
    case (Some err)
    with 3 show ?thesis by simp
  next
    case None
    show ?thesis
    proof (cases "ii_Disposition (ic_info (ir_intercept wr)) = ACTIVE")
      case True
      with 3 None show ?thesis
        by (auto simp: Let_def split: option.splits mounts_outcome.splits)
    next
      case False
      with 3 None show ?thesis by (auto simp: Let_def)
    qed
  qed
qed

lemma waitLoop_returns:
  "Done e \<in> set outs \<Longrightarrow> m \<noteq> None \<Longrightarrow> \<exists>r. waitLoop ct ep ii result outs m = Some r"
proof (induction ct ep ii result outs m rule: waitLoop.induct)
  case (3 CheckTimeout InterceptEpilog ii result wr rest mounts)
  then show ?case
    by (auto simp: Let_def split: option.splits mounts_outcome.splits)
qed auto

lemma RemoveIntercept_trace:
  "\<exists>post. s_trace (snd (RemoveIntercept canStop apiTimeout removed c name s))
      = s_trace s @ EvRemoveIntercept c name # post
    \<and> (\<forall>c' n. EvManagerRemove c' n \<in> set post \<longrightarrow> c' = WithTimeout c apiTimeout)"
  by (auto simp: RemoveIntercept_def removeIntercept_def stopHandler_def emit_def Let_def
      split: option.splits)

lemma unregisterWaiter_trace:
  "\<exists>post. s_trace (unregisterWaiter name ch s) = s_trace s @ post
     \<and> set post \<subseteq> {EvDeleteWaiter name, EvClose ch}"
  by (auto simp: unregisterWaiter_def emit_def)


text \<open>
  C3. In the wait loop, after any notifications that are passed over:
  a notification that carries an error ends the call at once with FAILED_TO_ESTABLISH and
  that error; the context being done ends it with FAILED_TO_ESTABLISH;
  a notification without error whose record is ACTIVE gives no result while neither the
  mounts-done signal nor the context fires, fails when the context fires first, and
  otherwise gives the epilog's failure or success; success is returned only after the
  mounts-done signal.
  Whenever the loop ends without success, AddIntercept calls RemoveIntercept for the
  intercept under a context that is derived with \<open>WithoutCancel\<close> (it is not cancelled
  with the caller's context) and bounded by five seconds; a removal request to the manager
  is sent under a context derived from that one; the outcome of the removal does not
  change the result. On success no removal is attempted. The loop returns once the context
  is done.
\<close>

theorem AddIntercept_wait_loop:
  assumes "\<forall>wr \<in> set pre. passedOver wr"
  shows "(\<forall>wr err. ir_err wr = Some err \<longrightarrow>
            waitLoop ct ep ii result (map Notified pre @ Notified wr # rest) m
              = Some (InterceptError FAILED_TO_ESTABLISH err, False, lastInfo ii pre))
    \<and> (\<forall>e. waitLoop ct ep ii result (map Notified pre @ Done e # rest) m
              = Some (InterceptError FAILED_TO_ESTABLISH (ct e), False, lastInfo ii pre))
    \<and> (\<forall>wr. ir_err wr = None \<and> ii_Disposition (ic_info (ir_intercept wr)) = ACTIVE \<longrightarrow>
          waitLoop ct ep ii result (map Notified pre @ Notified wr # rest) None = None
          \<and> (\<forall>e. waitLoop ct ep ii result (map Notified pre @ Notified wr # rest) (Some (MountsCtxDone e))
                 = Some (InterceptError FAILED_TO_ESTABLISH (ct e), False, ic_info (ir_intercept wr)))
          \<and> waitLoop ct ep ii result (map Notified pre @ Notified wr # rest) (Some MountsDone)
              = (case ep (result \<lparr> res_InterceptInfo := Some (ic_info (ir_intercept wr)) \<rparr>) of
                   Some er \<Rightarrow> Some (er, False, ic_info (ir_intercept wr))
                 | None \<Rightarrow> Some (result \<lparr> res_InterceptInfo := Some (ic_info (ir_intercept wr)) \<rparr>,
                                 True, ic_info (ir_intercept wr))))
    \<and> (\<forall>outs r ii'. waitLoop ct ep ii result outs m = Some (r, True, ii') \<longrightarrow> m = Some MountsDone)
    \<and> (\<forall>outs e. Done e \<in> set outs \<and> m \<noteq> None \<longrightarrow> (\<exists>r. waitLoop ct ep ii result outs m = Some r))
    \<and> (\<forall>outs res ii'. waitLoop ct ep ii result outs m = Some (res, False, ii') \<longrightarrow>
          (\<exists>s' post.
             AddIntercept ct ep canStop tI tA ir result (Inr ii) reconciler outs m removed s = Some (res, s')
             \<and> s_trace s'
                = s_trace (reconciler (emit [EvManagerCreate (WithTimeout CallerCtx tI) (cir_Spec ir)]
                                         (snd (registerWaiter ir s))))
                  @ EvRemoveIntercept (removalCtx (WithTimeout CallerCtx tI)) (spec_Name (ii_Spec ii')) # post
             \<and> (\<forall>c' n. EvManagerRemove c' n \<in> set post
                   \<longrightarrow> c' = WithTimeout (removalCtx (WithTimeout CallerCtx tI)) tA)))
    \<and> (\<forall>outs res ii'. waitLoop ct ep ii result outs m = Some (res, True, ii') \<longrightarrow>
          AddIntercept ct ep canStop tI tA ir result (Inr ii) reconciler outs m removed s
            = Some (res, unregisterWaiter (spec_Name (cir_Spec ir)) (fst (registerWaiter ir s))
                      (reconciler (emit [EvManagerCreate (WithTimeout CallerCtx tI) (cir_Spec ir)]
                                     (snd (registerWaiter ir s))))))
    \<and> \<not> cancelledWithCaller (removalCtx (WithTimeout CallerCtx tI))
    \<and> deadlineWithin (removalCtx (WithTimeout CallerCtx tI)) = Some 5000
    \<and> \<not> cancelledWithCaller (WithTimeout (removalCtx (WithTimeout CallerCtx tI)) tA)"
proof -
  note po = waitLoop_passedOver[OF assms]
  have 1: "\<forall>wr err. ir_err wr = Some err \<longrightarrow>
            waitLoop ct ep ii result (map Notified pre @ Notified wr # rest) m
              = Some (InterceptError FAILED_TO_ESTABLISH err, False, lastInfo ii pre)"
    by (simp add: po)
  have 2: "\<forall>e. waitLoop ct ep ii result (map Notified pre @ Done e # rest) m
              = Some (InterceptError FAILED_TO_ESTABLISH (ct e), False, lastInfo ii pre)"
    by (simp add: po)
  have 3: "\<forall>wr. ir_err wr = None \<and> ii_Disposition (ic_info (ir_intercept wr)) = ACTIVE \<longrightarrow>
          waitLoop ct ep ii result (map Notified pre @ Notified wr # rest) None = None
          \<and> (\<forall>e. waitLoop ct ep ii result (map Notified pre @ Notified wr # rest) (Some (MountsCtxDone e))
                 = Some (InterceptError FAILED_TO_ESTABLISH (ct e), False, ic_info (ir_intercept wr)))
          \<and> waitLoop ct ep ii result (map Notified pre @ Notified wr # rest) (Some MountsDone)
              = (case ep (result \<lparr> res_InterceptInfo := Some (ic_info (ir_intercept wr)) \<rparr>) of
                   Some er \<Rightarrow> Some (er, False, ic_info (ir_intercept wr))
                 | None \<Rightarrow> Some (result \<lparr> res_InterceptInfo := Some (ic_info (ir_intercept wr)) \<rparr>,
                                 True, ic_info (ir_intercept wr)))"
    by (simp add: po Let_def)
  have 4: "\<forall>outs r ii'. waitLoop ct ep ii result outs m = Some (r, True, ii') \<longrightarrow> m = Some MountsDone"
    using waitLoop_success by blast
  have 5: "\<forall>outs e. Done e \<in> set outs \<and> m \<noteq> None \<longrightarrow> (\<exists>r. waitLoop ct ep ii result outs m = Some r)"
    using waitLoop_returns by blast
  have 6: "\<forall>outs res ii'. waitLoop ct ep ii result outs m = Some (res, False, ii') \<longrightarrow>
          (\<exists>s' post.
             AddIntercept ct ep canStop tI tA ir result (Inr ii) reconciler outs m removed s = Some (res, s')
             \<and> s_trace s'
                = s_trace (reconciler (emit [EvManagerCreate (WithTimeout CallerCtx tI) (cir_Spec ir)]
                                         (snd (registerWaiter ir s))))
                  @ EvRemoveIntercept (removalCtx (WithTimeout CallerCtx tI)) (spec_Name (ii_Spec ii')) # post
             \<and> (\<forall>c' n. EvManagerRemove c' n \<in> set post
                   \<longrightarrow> c' = WithTimeout (removalCtx (WithTimeout CallerCtx tI)) tA))"
  proof (intro allI impI)
    fix outs res ii'
    assume w: "waitLoop ct ep ii result outs m = Some (res, False, ii')"
    let ?c = "WithTimeout CallerCtx tI"
    let ?s2 = "reconciler (emit [EvManagerCreate ?c (cir_Spec ir)] (snd (registerWaiter ir s)))"
    let ?s3 = "snd (RemoveIntercept canStop tA removed (removalCtx ?c) (spec_Name (ii_Spec ii')) ?s2)"
    let ?s4 = "unregisterWaiter (spec_Name (cir_Spec ir)) (fst (registerWaiter ir s)) ?s3"
    from RemoveIntercept_trace[of canStop tA removed "removalCtx ?c" "spec_Name (ii_Spec ii')" ?s2]
    obtain p1 where p1: "s_trace ?s3 = s_trace ?s2 @ EvRemoveIntercept (removalCtx ?c) (spec_Name (ii_Spec ii')) # p1"
      and m1: "\<forall>c' n. EvManagerRemove c' n \<in> set p1 \<longrightarrow> c' = WithTimeout (removalCtx ?c) tA"
      by blast
    from unregisterWaiter_trace[of "spec_Name (cir_Spec ir)" "fst (registerWaiter ir s)" ?s3]
    obtain p2 where p2: "s_trace ?s4 = s_trace ?s3 @ p2"
      and m2: "set p2 \<subseteq> {EvDeleteWaiter (spec_Name (cir_Spec ir)), EvClose (fst (registerWaiter ir s))}"
      by blast
    have a: "AddIntercept ct ep canStop tI tA ir result (Inr ii) reconciler outs m removed s = Some (res, ?s4)"
      using w by (simp add: AddIntercept_def Let_def split: prod.splits)
    have t: "s_trace ?s4 = s_trace ?s2 @ EvRemoveIntercept (removalCtx ?c) (spec_Name (ii_Spec ii')) # (p1 @ p2)"
      using p1 p2 by simp
    have mm: "\<forall>c' n. EvManagerRemove c' n \<in> set (p1 @ p2) \<longrightarrow> c' = WithTimeout (removalCtx ?c) tA"
      using m1 m2 by auto
    from a t mm show "\<exists>s' post.
             AddIntercept ct ep canStop tI tA ir result (Inr ii) reconciler outs m removed s = Some (res, s')
             \<and> s_trace s' = s_trace ?s2 @ EvRemoveIntercept (removalCtx ?c) (spec_Name (ii_Spec ii')) # post
             \<and> (\<forall>c' n. EvManagerRemove c' n \<in> set post \<longrightarrow> c' = WithTimeout (removalCtx ?c) tA)"
      by blast
  qed
  have 7: "\<forall>outs res ii'. waitLoop ct ep ii result outs m = Some (res, True, ii') \<longrightarrow>
          AddIntercept ct ep canStop tI tA ir result (Inr ii) reconciler outs m removed s
            = Some (res, unregisterWaiter (spec_Name (cir_Spec ir)) (fst (registerWaiter ir s))
                      (reconciler (emit [EvManagerCreate (WithTimeout CallerCtx tI) (cir_Spec ir)]
                                     (snd (registerWaiter ir s)))))"
    by (simp add: AddIntercept_def Let_def split: prod.splits)
  have 8: "\<not> cancelledWithCaller (removalCtx (WithTimeout CallerCtx tI))"
    by (simp add: removalCtx_def)
  have 9: "deadlineWithin (removalCtx (WithTimeout CallerCtx tI)) = Some 5000"
    by (simp add: removalCtx_def)
  have 10: "\<not> cancelledWithCaller (WithTimeout (removalCtx (WithTimeout CallerCtx tI)) tA)"
    by (simp add: removalCtx_def)
  from 1 2 3 4 5 6 7 8 9 10 show ?thesis by (intro conjI) assumption+
qed


theorem AddIntercept_wait_loop_witness:
  "waitLoop sampleCheckTimeout InterceptEpilog (sampleInfo WAITING) emptyResult
       [Notified (sampleNotification NO_AGENT (Some (PlainError ''intercept in error state NO_AGENT: '')))]
       None
     = Some (InterceptError FAILED_TO_ESTABLISH (PlainError ''intercept in error state NO_AGENT: ''),
             False, sampleInfo WAITING)
   \<and> waitLoop sampleCheckTimeout InterceptEpilog (sampleInfo WAITING) emptyResult
       [Notified (sampleNotification ACTIVE None)] None = None
   \<and> waitLoop sampleCheckTimeout InterceptEpilog (sampleInfo WAITING) emptyResult
       [Notified (sampleNotification ACTIVE None)] (Some MountsDone)
     = Some (emptyResult \<lparr> res_InterceptInfo := Some (sampleInfo ACTIVE) \<rparr>, True, sampleInfo ACTIVE)
   \<and> (\<exists>s'. AddIntercept sampleCheckTimeout InterceptEpilog True 30000 15000 (sampleRequest ''a'')
             emptyResult (Inr (sampleInfo WAITING)) sampleReconciler [Done DeadlineExceeded] None None
             (mkSession [])
           = Some (InterceptError FAILED_TO_ESTABLISH (UserError ''the intercept timed out''), s')
         \<and> EvRemoveIntercept (removalCtx (WithTimeout CallerCtx 30000)) ''a'' \<in> set (s_trace s')
         \<and> EvManagerRemove (WithTimeout (removalCtx (WithTimeout CallerCtx 30000)) 15000) ''a''
             \<in> set (s_trace s'))"
proof -
  have h: "\<forall>wr \<in> set ([]::interceptResult list). passedOver wr" by simp
  note th = AddIntercept_wait_loop[OF h, where ct=sampleCheckTimeout and ep=InterceptEpilog
      and ii="sampleInfo WAITING" and result=emptyResult and rest="[]"]
  have e1: "ir_err (sampleNotification NO_AGENT (Some (PlainError ''intercept in error state NO_AGENT: '')))
      = Some (PlainError ''intercept in error state NO_AGENT: '')"
    by (simp add: sampleNotification_def)
  from th[where m=None, THEN conjunct1, rule_format, OF e1]
  have g1: "waitLoop sampleCheckTimeout InterceptEpilog (sampleInfo WAITING) emptyResult
       [Notified (sampleNotification NO_AGENT (Some (PlainError ''intercept in error state NO_AGENT: '')))]
       None
     = Some (InterceptError FAILED_TO_ESTABLISH (PlainError ''intercept in error state NO_AGENT: ''),
             False, sampleInfo WAITING)"
    by (simp add: lastInfo_def)
  have e2: "ir_err (sampleNotification ACTIVE None) = None
      \<and> ii_Disposition (ic_info (ir_intercept (sampleNotification ACTIVE None))) = ACTIVE"
    by (simp add: sampleNotification_def mkIntercept_def sampleInfo_def mkInfo_def)
  have i2: "ic_info (ir_intercept (sampleNotification ACTIVE None)) = sampleInfo ACTIVE"
    by (simp add: sampleNotification_def mkIntercept_def)
  from th[where m=None, THEN conjunct2, THEN conjunct2, THEN conjunct1, rule_format, OF e2]
  have g2: "waitLoop sampleCheckTimeout InterceptEpilog (sampleInfo WAITING) emptyResult
       [Notified (sampleNotification ACTIVE None)] None = None"
    and g3: "waitLoop sampleCheckTimeout InterceptEpilog (sampleInfo WAITING) emptyResult
       [Notified (sampleNotification ACTIVE None)] (Some MountsDone)
     = Some (emptyResult \<lparr> res_InterceptInfo := Some (sampleInfo ACTIVE) \<rparr>, True, sampleInfo ACTIVE)"
    by (simp_all add: i2 InterceptEpilog_def)
  have w: "waitLoop sampleCheckTimeout InterceptEpilog (sampleInfo WAITING) emptyResult
        [Done DeadlineExceeded] None
      = Some (InterceptError FAILED_TO_ESTABLISH (UserError ''the intercept timed out''), False,
              sampleInfo WAITING)"
    by (simp add: sampleCheckTimeout_def)
  from th[where m=None and canStop=True and tI=30000 and tA=15000 and ir="sampleRequest ''a''"
      and reconciler=sampleReconciler and removed=None and s="mkSession []",
      THEN conjunct2, THEN conjunct2, THEN conjunct2, THEN conjunct2, THEN conjunct2,
      THEN conjunct1, rule_format, OF w]
  obtain s' post where a: "AddIntercept sampleCheckTimeout InterceptEpilog True 30000 15000
             (sampleRequest ''a'') emptyResult (Inr (sampleInfo WAITING)) sampleReconciler
             [Done DeadlineExceeded] None None (mkSession [])
           = Some (InterceptError FAILED_TO_ESTABLISH (UserError ''the intercept timed out''), s')"
    and t: "s_trace s' = s_trace (sampleReconciler (emit [EvManagerCreate (WithTimeout CallerCtx 30000)
                                    (cir_Spec (sampleRequest ''a''))]
                                         (snd (registerWaiter (sampleRequest ''a'') (mkSession [])))))
                  @ EvRemoveIntercept (removalCtx (WithTimeout CallerCtx 30000))
                      (spec_Name (ii_Spec (sampleInfo WAITING))) # post"
    by blast
  have n: "spec_Name (ii_Spec (sampleInfo WAITING)) = ''a''"
    by (simp add: sampleInfo_def mkInfo_def mkSpec_def)
  from t have r1: "EvRemoveIntercept (removalCtx (WithTimeout CallerCtx 30000)) ''a'' \<in> set (s_trace s')"
    by (simp add: n)
  have "EvManagerRemove (WithTimeout (removalCtx (WithTimeout CallerCtx 30000)) 15000) ''a''
      \<in> set (s_trace (snd (the (AddIntercept sampleCheckTimeout InterceptEpilog True 30000 15000
             (sampleRequest ''a'') emptyResult (Inr (sampleInfo WAITING)) sampleReconciler
             [Done DeadlineExceeded] None None (mkSession [])))))"
    by (simp add: AddIntercept_def registerWaiter_def sampleRequest_def mkSession_def emit_def
        sampleReconciler_def sampleCheckTimeout_def RemoveIntercept_def removeIntercept_def
        stopHandler_def mkIntercept_def sampleInfo_def mkInfo_def mkSpec_def unregisterWaiter_def
        Let_def)
  with a have r2: "EvManagerRemove (WithTimeout (removalCtx (WithTimeout CallerCtx 30000)) 15000) ''a''
      \<in> set (s_trace s')" by simp
  from g1 g2 g3 a r1 r2 show ?thesis by blast
qed

subsection \<open>setCurrentIntercepts, handleInterceptSnapshot and removeIntercept\<close>

lemma buildIntercepts_trace:
  "\<exists>added. s_trace (snd (buildIntercepts iis acc s)) = s_trace s @ added
     \<and> (\<forall>e \<in> set added. setEvent e)"
proof (induction iis arbitrary: acc s)
  case Nil
  show ?case by simp
next
  case (Cons ii iis)
  show ?case
  proof (cases "map_of (s_currentIntercepts s) (ii_Id ii)")
    case (Some ic)
    with Cons.IH show ?thesis by simp
  next
    case None
    let ?s = "s \<lparr> s_next := Suc (s_next s), s_trace := s_trace s @ [EvNewScope (s_next s)] \<rparr>"
    from None obtain acc' where e: "buildIntercepts (ii # iis) acc s = buildIntercepts iis acc' ?s"
      by (simp add: Let_def)
    from Cons.IH[of acc' ?s] obtain added where
      "s_trace (snd (buildIntercepts iis acc' ?s)) = s_trace ?s @ added"
      "\<forall>e \<in> set added. setEvent e" by blast
    then have "s_trace (snd (buildIntercepts (ii # iis) acc s)) = s_trace s @ (EvNewScope (s_next s) # added)
        \<and> (\<forall>e \<in> set (EvNewScope (s_next s) # added). setEvent e)"
      unfolding e by simp
    then show ?thesis by blast
  qed
qed

lemma buildIntercepts_current:
  "s_currentIntercepts (snd (buildIntercepts iis acc s)) = s_currentIntercepts s"
  by (induction iis arbitrary: acc s) (auto simp: Let_def split: option.splits)

lemma keys_update: "fst ` set (AList.update k v al) = insert k (fst ` set al)"
  by (induction al) auto

lemma buildIntercepts_keys:
  "fst ` set (fst (buildIntercepts iis acc s)) = fst ` set acc \<union> ii_Id ` set iis"
proof (induction iis arbitrary: acc s)
  case Nil
  show ?case by simp
next
  case (Cons ii iis)
  have "\<exists>v s'. buildIntercepts (ii # iis) acc s = buildIntercepts iis (AList.update (ii_Id ii) v acc) s'"
    by (cases "map_of (s_currentIntercepts s) (ii_Id ii)") (simp_all add: Let_def, blast+)
  then obtain v s' where
    e: "buildIntercepts (ii # iis) acc s = buildIntercepts iis (AList.update (ii_Id ii) v acc) s'"
    by blast
  show ?case unfolding e Cons.IH keys_update by auto
qed

lemma cancelGone_mem:
  "(k, ic) \<in> set cur \<Longrightarrow> map_of intercepts k = None
    \<Longrightarrow> EvCancel (ic_scope ic) \<in> set (cancelGone intercepts cur)"
  by (induction cur) auto

lemma cancelGone_only:
  "e \<in> set (cancelGone intercepts cur)
    \<Longrightarrow> \<exists>k ic. (k, ic) \<in> set cur \<and> map_of intercepts k = None \<and> e = EvCancel (ic_scope ic)"
proof (induction cur)
  case Nil
  then show ?case by simp
next
  case (Cons p cur)
  obtain k ic where p: "p = (k, ic)" by (cases p)
  show ?case
  proof (cases "e = EvCancel (ic_scope ic) \<and> map_of intercepts k = None")
    case True
    then show ?thesis by (auto simp: p)
  next
    case False
    with Cons.prems have "e \<in> set (cancelGone intercepts cur)"
      by (auto simp: p split: if_splits)
    from Cons.IH[OF this] show ?thesis by auto
  qed
qed

lemma cancelGone_events: "\<forall>e \<in> set (cancelGone intercepts cur). setEvent e"
  using cancelGone_only by fastforce

lemma map_of_None_keys: "map_of al k = None \<longleftrightarrow> k \<notin> fst ` set al"
  by (simp add: map_of_eq_None_iff)

lemma stopServers_events: "\<forall>e \<in> set (snd (stopServers wp servers)). setEvent e"
  by (induction servers) (auto split: prod.splits if_splits)

lemma agentAPIPort_events: "\<forall>e \<in> set (snd (agentAPIPort ii)). setEvent e"
  by (auto simp: agentAPIPort_def split: option.splits)

lemma wanted_events: "wanted cur = (ports, matchers, logs) \<Longrightarrow> \<forall>e \<in> set logs. setEvent e"
proof (induction cur arbitrary: ports matchers logs)
  case Nil
  then show ?case by simp
next
  case (Cons p cur)
  obtain k ic where p: "p = (k, ic)" by (cases p)
  obtain ports' matchers' logs' where w: "wanted cur = (ports', matchers', logs')"
    by (cases "wanted cur") auto
  from Cons.IH[OF w] have l: "\<forall>e \<in> set logs'. setEvent e" .
  obtain port l2 where a: "agentAPIPort (ic_info ic) = (port, l2)" by (cases "agentAPIPort (ic_info ic)")
  with agentAPIPort_events[of "ic_info ic"] have l2: "\<forall>e \<in> set l2. setEvent e" by simp
  from Cons.prems have "logs = logs' \<or> logs = l2 @ logs'"
    by (auto simp: p w a split: if_splits)
  with l l2 show ?case by auto
qed

lemma startServers_trace:
  "\<exists>added. s_trace (startServers ps s) = s_trace s @ added \<and> (\<forall>e \<in> set added. setEvent e)"
proof (induction ps arbitrary: s)
  case Nil
  show ?case by simp
next
  case (Cons p ps)
  show ?case
  proof (cases "map_of (s_currentAPIServers s) p = None")
    case True
    let ?s = "s \<lparr> s_currentAPIServers := AList.update p (s_next s) (s_currentAPIServers s),
                  s_next := Suc (s_next s),
                  s_trace := s_trace s @ [EvListenAndServe p (s_next s)] \<rparr>"
    from Cons.IH[of ?s] obtain added where
      "s_trace (startServers ps ?s) = s_trace ?s @ added" "\<forall>e \<in> set added. setEvent e" by blast
    with True have "s_trace (startServers (p # ps) s) = s_trace s @ (EvListenAndServe p (s_next s) # added)
        \<and> (\<forall>e \<in> set (EvListenAndServe p (s_next s) # added). setEvent e)" by simp
    then show ?thesis by blast
  next
    case False
    with Cons.IH[of s] show ?thesis by auto
  qed
qed

lemma startServers_current: "s_currentIntercepts (startServers ps s) = s_currentIntercepts s"
  by (induction ps arbitrary: s) auto

lemma startMatchers_trace:
  "\<exists>added. s_trace (startMatchers nrm ms s) = s_trace s @ added \<and> (\<forall>e \<in> set added. setEvent e)"
proof (induction ms arbitrary: s)
  case Nil
  show ?case by simp
next
  case (Cons p ms)
  obtain k ii where p: "p = (k, ii)" by (cases p)
  show ?case
  proof (cases "map_of (s_currentMatchers s) k = None")
    case False
    with Cons.IH[of s] show ?thesis by (auto simp: p)
  next
    case True
    show ?thesis
    proof (cases "nrm (ii_Headers ii)")
      case (Inl err)
      from Cons.IH[of "emit [EvLogError err] s"] obtain added where
        "s_trace (startMatchers nrm ms (emit [EvLogError err] s)) = s_trace (emit [EvLogError err] s) @ added"
        "\<forall>e \<in> set added. setEvent e" by blast
      with True Inl have "s_trace (startMatchers nrm (p # ms) s) = s_trace s @ (EvLogError err # added)
          \<and> (\<forall>e \<in> set (EvLogError err # added). setEvent e)"
        by (simp add: p emit_def)
      then show ?thesis by blast
    next
      case (Inr m)
      from Cons.IH[of "s \<lparr> s_currentMatchers := AList.update (ii_Id ii)
                       \<lparr> am_requestMatcher = m, am_metadata = ii_Metadata ii \<rparr> (s_currentMatchers s) \<rparr>"]
        True Inr show ?thesis by (simp add: p)
    qed
  qed
qed

lemma startMatchers_current: "s_currentIntercepts (startMatchers nrm ms s) = s_currentIntercepts s"
  by (induction ms arbitrary: s) (auto simp: emit_def split: sum.splits)

lemma reconcileAPIServers_trace:
  "\<exists>added. s_trace (reconcileAPIServers nrm s) = s_trace s @ added \<and> (\<forall>e \<in> set added. setEvent e)"
proof -
  obtain wp wm logs where w: "wanted (s_currentIntercepts s) = (wp, wm, logs)"
    by (cases "wanted (s_currentIntercepts s)") auto
  obtain servers stops where st: "stopServers wp (s_currentAPIServers s) = (servers, stops)"
    by (cases "stopServers wp (s_currentAPIServers s)")
  let ?s1 = "s \<lparr> s_currentAPIServers := servers, s_trace := s_trace s @ logs @ stops \<rparr>"
  let ?s2 = "(startServers wp ?s1) \<lparr> s_currentMatchers :=
               filter (\<lambda>(k, m). map_of wm k \<noteq> None) (s_currentMatchers s) \<rparr>"
  have r: "reconcileAPIServers nrm s = startMatchers nrm wm ?s2"
    by (simp add: reconcileAPIServers_def w st)
  from wanted_events[OF w] have l: "\<forall>e \<in> set logs. setEvent e" .
  from stopServers_events[of wp "s_currentAPIServers s"] st have sp: "\<forall>e \<in> set stops. setEvent e"
    by simp
  from startServers_trace[of wp ?s1] obtain a1 where
    a1: "s_trace (startServers wp ?s1) = s_trace ?s1 @ a1" "\<forall>e \<in> set a1. setEvent e" by blast
  from startMatchers_trace[of nrm wm ?s2] obtain a2 where
    a2: "s_trace (startMatchers nrm wm ?s2) = s_trace ?s2 @ a2" "\<forall>e \<in> set a2. setEvent e" by blast
  have "s_trace (reconcileAPIServers nrm s) = s_trace s @ (logs @ stops @ a1 @ a2)"
    unfolding r a2(1) using a1(1) by simp
  moreover have "\<forall>e \<in> set (logs @ stops @ a1 @ a2). setEvent e"
    using l sp a1(2) a2(2) by auto
  ultimately show ?thesis by blast
qed

lemma reconcileAPIServers_current:
  "s_currentIntercepts (reconcileAPIServers nrm s) = s_currentIntercepts s"
  by (simp add: reconcileAPIServers_def startMatchers_current startServers_current split: prod.splits)

lemma buildIntercepts_fields:
  "s_interceptWaiters (snd (buildIntercepts iis acc s)) = s_interceptWaiters s
   \<and> s_chans (snd (buildIntercepts iis acc s)) = s_chans s
   \<and> s_Namespace (snd (buildIntercepts iis acc s)) = s_Namespace s
   \<and> s_isPodDaemon (snd (buildIntercepts iis acc s)) = s_isPodDaemon s"
  by (induction iis arbitrary: acc s) (auto simp: Let_def split: option.splits)

lemma startServers_fields:
  "s_interceptWaiters (startServers ps s) = s_interceptWaiters s
   \<and> s_chans (startServers ps s) = s_chans s
   \<and> s_Namespace (startServers ps s) = s_Namespace s
   \<and> s_isPodDaemon (startServers ps s) = s_isPodDaemon s"
  by (induction ps arbitrary: s) auto

lemma startMatchers_field:
  assumes "\<And>s t. f (s \<lparr> s_trace := t \<rparr>) = f s"
    and "\<And>s m. f (s \<lparr> s_currentMatchers := m \<rparr>) = f s"
  shows "f (startMatchers nrm ms s) = f (s :: 'm session)"
proof (induction ms arbitrary: s)
  case Nil
  show ?case by simp
next
  case (Cons p ms)
  obtain k ii where p: "p = (k, ii)" by (cases p)
  show ?case
  proof (cases "map_of (s_currentMatchers s) k = None")
    case False
    then show ?thesis using Cons.IH[of s] by (auto simp: p)
  next
    case True
    show ?thesis
    proof (cases "nrm (ii_Headers ii)")
      case (Inl err)
      with True Cons.IH[of "emit [EvLogError err] s"] assms(1) show ?thesis
        by (simp add: p emit_def)
    next
      case (Inr m)
      with True Cons.IH[of "s \<lparr> s_currentMatchers := AList.update (ii_Id ii)
           \<lparr> am_requestMatcher = m, am_metadata = ii_Metadata ii \<rparr> (s_currentMatchers s) \<rparr>"] assms(2)
      show ?thesis by (simp add: p)
    qed
  qed
qed

lemma startMatchers_fields:
  "s_interceptWaiters (startMatchers nrm ms s) = s_interceptWaiters s
   \<and> s_chans (startMatchers nrm ms s) = s_chans s
   \<and> s_Namespace (startMatchers nrm ms s) = s_Namespace s
   \<and> s_isPodDaemon (startMatchers nrm ms s) = s_isPodDaemon s"
  by (simp add: startMatchers_field)

lemma reconcileAPIServers_fields:
  "s_interceptWaiters (reconcileAPIServers nrm s) = s_interceptWaiters s
   \<and> s_chans (reconcileAPIServers nrm s) = s_chans s
   \<and> s_Namespace (reconcileAPIServers nrm s) = s_Namespace s
   \<and> s_isPodDaemon (reconcileAPIServers nrm s) = s_isPodDaemon s"
  by (simp add: reconcileAPIServers_def startMatchers_fields startServers_fields split: prod.splits)

lemma setCurrentIntercepts_fields:
  "s_interceptWaiters (setCurrentIntercepts nrm iis s) = s_interceptWaiters s
   \<and> s_chans (setCurrentIntercepts nrm iis s) = s_chans s
   \<and> s_Namespace (setCurrentIntercepts nrm iis s) = s_Namespace s
   \<and> s_isPodDaemon (setCurrentIntercepts nrm iis s) = s_isPodDaemon s"
proof -
  obtain ics s1 where b: "buildIntercepts iis [] s = (ics, s1)" by (cases "buildIntercepts iis [] s")
  from buildIntercepts_fields[of iis "[]" s] b show ?thesis
    by (simp add: setCurrentIntercepts_def reconcileAPIServers_fields)
qed

lemma setCurrentIntercepts_keys:
  "fst ` set (s_currentIntercepts (setCurrentIntercepts nrm iis s)) = ii_Id ` set iis"
proof -
  obtain ics s1 where b: "buildIntercepts iis [] s = (ics, s1)" by (cases "buildIntercepts iis [] s")
  from buildIntercepts_keys[of iis "[]" s] b have "fst ` set ics = ii_Id ` set iis" by simp
  with b show ?thesis by (simp add: setCurrentIntercepts_def reconcileAPIServers_current)
qed

lemma setCurrentIntercepts_trace_set:
  "\<exists>added. s_trace (setCurrentIntercepts nrm iis s) = s_trace s @ added
     \<and> (\<forall>e \<in> set added. setEvent e)
     \<and> (\<forall>(k, ic) \<in> set (s_currentIntercepts s).
           k \<notin> ii_Id ` set iis \<longrightarrow> EvCancel (ic_scope ic) \<in> set added)"
proof -
  obtain ics s1 where b: "buildIntercepts iis [] s = (ics, s1)" by (cases "buildIntercepts iis [] s")
  from buildIntercepts_trace[of iis "[]" s] b obtain a1 where
    a1: "s_trace s1 = s_trace s @ a1" "\<forall>e \<in> set a1. setEvent e" by auto
  from buildIntercepts_keys[of iis "[]" s] b have keys: "fst ` set ics = ii_Id ` set iis" by simp
  let ?s2 = "s1 \<lparr> s_trace := s_trace s1 @ cancelGone ics (s_currentIntercepts s),
                s_currentIntercepts := ics \<rparr>"
  from reconcileAPIServers_trace[of nrm ?s2] obtain a3 where
    a3: "s_trace (reconcileAPIServers nrm ?s2) = s_trace ?s2 @ a3" "\<forall>e \<in> set a3. setEvent e"
    by blast
  have t: "s_trace (setCurrentIntercepts nrm iis s)
      = s_trace s @ (a1 @ cancelGone ics (s_currentIntercepts s) @ a3)"
    using a1(1) a3(1) by (simp add: setCurrentIntercepts_def b)
  have ev: "\<forall>e \<in> set (a1 @ cancelGone ics (s_currentIntercepts s) @ a3). setEvent e"
    using a1(2) a3(2) cancelGone_events[of ics "s_currentIntercepts s"] by auto
  have c: "\<forall>(k, ic) \<in> set (s_currentIntercepts s).
           k \<notin> ii_Id ` set iis \<longrightarrow> EvCancel (ic_scope ic) \<in> set (a1 @ cancelGone ics (s_currentIntercepts s) @ a3)"
  proof (intro ballI, clarify)
    fix k ic
    assume m: "(k, ic) \<in> set (s_currentIntercepts s)" and n: "k \<notin> ii_Id ` set iis"
    from n keys have "map_of ics k = None" by (simp add: map_of_None_keys)
    from cancelGone_mem[OF m this]
    show "EvCancel (ic_scope ic) \<in> set (a1 @ cancelGone ics (s_currentIntercepts s) @ a3)" by simp
  qed
  from t ev c show ?thesis by blast
qed

lemma setEvent_reconcilerEvent: "setEvent e \<Longrightarrow> reconcilerEvent e"
  by (cases e) simp_all

lemma setCurrentIntercepts_trace:
  "\<exists>added. s_trace (setCurrentIntercepts nrm iis s) = s_trace s @ added
     \<and> (\<forall>e \<in> set added. reconcilerEvent e)
     \<and> (\<forall>(k, ic) \<in> set (s_currentIntercepts s).
           k \<notin> ii_Id ` set iis \<longrightarrow> EvCancel (ic_scope ic) \<in> set added)"
proof -
  from setCurrentIntercepts_trace_set[of nrm iis s] obtain added where
    a: "s_trace (setCurrentIntercepts nrm iis s) = s_trace s @ added"
    "\<forall>e \<in> set added. setEvent e"
    "\<forall>(k, ic) \<in> set (s_currentIntercepts s).
           k \<notin> ii_Id ` set iis \<longrightarrow> EvCancel (ic_scope ic) \<in> set added" by blast
  from a(2) have "\<forall>e \<in> set added. reconcilerEvent e"
    by (simp add: setEvent_reconcilerEvent)
  with a(1) a(3) show ?thesis by blast
qed

lemma buildIntercepts_pat:
  "pat_alivePods (snd (buildIntercepts iis acc s)) = pat_alivePods s
   \<and> pat_snapshot (snd (buildIntercepts iis acc s)) = pat_snapshot s"
  by (induction iis arbitrary: acc s) (auto simp: Let_def split: option.splits)

lemma startServers_pat:
  "pat_alivePods (startServers ps s) = pat_alivePods s
   \<and> pat_snapshot (startServers ps s) = pat_snapshot s"
  by (induction ps arbitrary: s) auto

lemma startMatchers_pat:
  "pat_alivePods (startMatchers nrm ms s) = pat_alivePods s
   \<and> pat_snapshot (startMatchers nrm ms s) = pat_snapshot s"
  by (simp add: startMatchers_field)

lemma reconcileAPIServers_pat:
  "pat_alivePods (reconcileAPIServers nrm s) = pat_alivePods s
   \<and> pat_snapshot (reconcileAPIServers nrm s) = pat_snapshot s"
  by (simp add: reconcileAPIServers_def startMatchers_pat startServers_pat split: prod.splits)

lemma setCurrentIntercepts_pat:
  "pat_alivePods (setCurrentIntercepts nrm iis s) = pat_alivePods s
   \<and> pat_snapshot (setCurrentIntercepts nrm iis s) = pat_snapshot s"
proof -
  obtain ics s1 where b: "buildIntercepts iis [] s = (ics, s1)" by (cases "buildIntercepts iis [] s")
  from buildIntercepts_pat[of iis "[]" s] b show ?thesis
    by (simp add: setCurrentIntercepts_def reconcileAPIServers_pat)
qed

lemma trySend_trace:
  "trySend k ch ir s = Inr (sent, s') \<Longrightarrow>
   (\<exists>added. s_trace s' = s_trace s @ added \<and> (\<forall>e \<in> set added. reconcilerEvent e))
   \<and> s_currentIntercepts s' = s_currentIntercepts s
   \<and> s_interceptWaiters s' = s_interceptWaiters s"
  by (auto simp: trySend_def emit_def split: option.splits if_splits)

lemma trySend_pat:
  "trySend k ch ir s = Inr (sent, s') \<Longrightarrow>
   s_isPodDaemon s' = s_isPodDaemon s \<and> pat_alivePods s' = pat_alivePods s
   \<and> pat_snapshot s' = pat_snapshot s"
  by (auto simp: trySend_def emit_def split: option.splits if_splits)

lemma start_trace:
  "(\<exists>added. s_trace (start pa s) = s_trace s @ added \<and> (\<forall>e \<in> set added. reconcilerEvent e))
   \<and> s_currentIntercepts (start pa s) = s_currentIntercepts s
   \<and> s_interceptWaiters (start pa s) = s_interceptWaiters s
   \<and> s_isPodDaemon (start pa s) = s_isPodDaemon s"
  by (simp add: start_def emit_def Let_def)

lemma start_pat:
  "set (pat_alivePods s) \<subseteq> set (pat_alivePods (start pa s))
   \<and> set (pat_snapshot (start pa s)) = insert (accessKey pa) (set (pat_snapshot s))"
  by (auto simp: start_def emit_def Let_def)

lemma startAccess_trace:
  "(\<exists>added. s_trace (startAccess err pa s) = s_trace s @ added \<and> (\<forall>e \<in> set added. reconcilerEvent e))
   \<and> s_currentIntercepts (startAccess err pa s) = s_currentIntercepts s
   \<and> s_interceptWaiters (startAccess err pa s) = s_interceptWaiters s"
proof (cases err)
  case None
  with start_trace[of "if s_isPodDaemon s then pa \<lparr> pa_ftpPort := 0, pa_sftpPort := 0 \<rparr> else pa" s]
  show ?thesis by (simp add: startAccess_def)
next
  case (Some e)
  then show ?thesis by (simp add: startAccess_def emit_def)
qed

lemma startAccess_pat:
  "s_isPodDaemon (startAccess err pa s) = s_isPodDaemon s
   \<and> set (pat_alivePods s) \<subseteq> set (pat_alivePods (startAccess err pa s))
   \<and> set (pat_snapshot (startAccess err pa s))
       \<subseteq> insert (accessKey (if s_isPodDaemon s then pa \<lparr> pa_ftpPort := 0, pa_sftpPort := 0 \<rparr> else pa))
            (set (pat_snapshot s))"
proof (cases err)
  case None
  with start_trace[of "if s_isPodDaemon s then pa \<lparr> pa_ftpPort := 0, pa_sftpPort := 0 \<rparr> else pa" s]
    start_pat[of s "if s_isPodDaemon s then pa \<lparr> pa_ftpPort := 0, pa_sftpPort := 0 \<rparr> else pa"]
  show ?thesis by (simp add: startAccess_def)
next
  case (Some e)
  then show ?thesis by (auto simp: startAccess_def emit_def)
qed

text \<open>What an iteration for a record out of WAITING amounts to: the waiter is served,
  which leaves the current set and the tracker alone, and then the pod access is handed to
  the tracker unless the error had been sent to the waiter.\<close>

lemma snapshotStep_cases:
  assumes "snapshotStep ii s = Inr s'"
  shows "\<exists>ic s3. map_of (s_currentIntercepts s) (ii_Id ii) = Some ic
     \<and> (s' = s3 \<or> s' = startAccess (snapshotError s ii) (podAccessOf ic) s3)
     \<and> (\<exists>a. s_trace s3 = s_trace s @ a \<and> (\<forall>e \<in> set a. reconcilerEvent e))
     \<and> s_currentIntercepts s3 = s_currentIntercepts s
     \<and> s_isPodDaemon s3 = s_isPodDaemon s
     \<and> pat_alivePods s3 = pat_alivePods s
     \<and> pat_snapshot s3 = pat_snapshot s"
proof -
  from assms obtain ic where ic: "map_of (s_currentIntercepts s) (ii_Id ii) = Some ic"
    by (auto simp: snapshotStep_def split: option.splits)
  let ?name = "spec_Name (ii_Spec ii)"
  let ?pa = "podAccessOf ic"
  let ?err = "snapshotError s ii"
  show ?thesis
  proof (cases "map_of (s_interceptWaiters s) ?name")
    case None
    with assms ic have s': "s' = startAccess ?err ?pa (emit [EvEnsureAccess ?pa] s)"
      by (simp add: snapshotStep_def Let_def)
    let ?s3 = "emit [EvEnsureAccess ?pa] s"
    have "s_trace ?s3 = s_trace s @ [EvEnsureAccess ?pa] \<and> (\<forall>e \<in> set [EvEnsureAccess ?pa]. reconcilerEvent e)"
      by (simp add: emit_def)
    then have "\<exists>a. s_trace ?s3 = s_trace s @ a \<and> (\<forall>e \<in> set a. reconcilerEvent e)" by blast
    moreover have "s_currentIntercepts ?s3 = s_currentIntercepts s" "s_isPodDaemon ?s3 = s_isPodDaemon s"
      "pat_alivePods ?s3 = pat_alivePods s" "pat_snapshot ?s3 = pat_snapshot s"
      by (simp_all add: emit_def)
    ultimately show ?thesis using ic s' by blast
  next
    case (Some w)
    let ?s2 = "emit [EvEnsureAccess ?pa] (emit [EvDeleteWaiter ?name]
                 (s \<lparr> s_interceptWaiters := AList.delete ?name (s_interceptWaiters s) \<rparr>))"
    let ?ir = "\<lparr> ir_intercept = ic, ir_mountsDone = ?pa, ir_err = ?err \<rparr>"
    have u: "snapshotStep ii s =
        (case trySend (ii_Id ii) (aw_waitCh w) ?ir ?s2 of
           Inl p \<Rightarrow> Inl p
         | Inr (sent, s3) \<Rightarrow>
             if sent \<and> ?err \<noteq> None then Inr s3 else Inr (startAccess ?err ?pa s3))"
      using ic Some by (simp add: snapshotStep_def Let_def)
    obtain sent s3 where
      ts: "trySend (ii_Id ii) (aw_waitCh w) ?ir ?s2 = Inr (sent, s3)"
      and s': "s' = (if sent \<and> ?err \<noteq> None then s3 else startAccess ?err ?pa s3)"
    proof (cases "trySend (ii_Id ii) (aw_waitCh w) ?ir ?s2")
      case (Inl p)
      with u assms show ?thesis by simp
    next
      case (Inr x)
      obtain sent s3 where x: "x = (sent, s3)" by (cases x)
      from u Inr x
      have e: "snapshotStep ii s
          = (if sent \<and> ?err \<noteq> None then Inr s3 else Inr (startAccess ?err ?pa s3))"
        by (simp split del: if_split)
      have "s' = (if sent \<and> ?err \<noteq> None then s3 else startAccess ?err ?pa s3)"
      proof (cases "sent \<and> ?err \<noteq> None")
        case True
        with e assms show ?thesis by simp
      next
        case False
        with e assms show ?thesis by auto
      qed
      with Inr x that show ?thesis by simp
    qed
    from trySend_trace[OF ts] obtain a1 where
      a1: "s_trace s3 = s_trace ?s2 @ a1" "\<forall>e \<in> set a1. reconcilerEvent e"
      and c1: "s_currentIntercepts s3 = s_currentIntercepts ?s2" by blast
    have "s_trace s3 = s_trace s @ (EvDeleteWaiter ?name # EvEnsureAccess ?pa # a1)
        \<and> (\<forall>e \<in> set (EvDeleteWaiter ?name # EvEnsureAccess ?pa # a1). reconcilerEvent e)"
      using a1 by (simp add: emit_def)
    then have t: "\<exists>a. s_trace s3 = s_trace s @ a \<and> (\<forall>e \<in> set a. reconcilerEvent e)" by blast
    have c: "s_currentIntercepts s3 = s_currentIntercepts s" using c1 by (simp add: emit_def)
    from trySend_pat[OF ts]
    have p: "s_isPodDaemon s3 = s_isPodDaemon s" "pat_alivePods s3 = pat_alivePods s"
      "pat_snapshot s3 = pat_snapshot s" by (simp_all add: emit_def)
    have d: "s' = s3 \<or> s' = startAccess ?err ?pa s3" using s' by (cases "sent \<and> ?err \<noteq> None") simp_all
    from ic d t c p show ?thesis by blast
  qed
qed

lemma snapshotStep_trace:
  assumes "snapshotStep ii s = Inr s'"
  shows "(\<exists>added. s_trace s' = s_trace s @ added \<and> (\<forall>e \<in> set added. reconcilerEvent e))
     \<and> s_currentIntercepts s' = s_currentIntercepts s"
proof -
  from snapshotStep_cases[OF assms] obtain ic s3 a where
    d: "s' = s3 \<or> s' = startAccess (snapshotError s ii) (podAccessOf ic) s3"
    and a: "s_trace s3 = s_trace s @ a" "\<forall>e \<in> set a. reconcilerEvent e"
    and c: "s_currentIntercepts s3 = s_currentIntercepts s" by blast
  from d show ?thesis
  proof
    assume "s' = s3"
    with a c show ?thesis by blast
  next
    assume s': "s' = startAccess (snapshotError s ii) (podAccessOf ic) s3"
    from startAccess_trace[of "snapshotError s ii" "podAccessOf ic" s3] obtain a2 where
      a2: "s_trace s' = s_trace s3 @ a2" "\<forall>e \<in> set a2. reconcilerEvent e"
      and c2: "s_currentIntercepts s' = s_currentIntercepts s3" unfolding s' by blast
    have "s_trace s' = s_trace s @ (a @ a2) \<and> (\<forall>e \<in> set (a @ a2). reconcilerEvent e)"
      using a a2 by auto
    moreover have "s_currentIntercepts s' = s_currentIntercepts s" using c c2 by simp
    ultimately show ?thesis by blast
  qed
qed

lemma snapshotStep_pat:
  assumes "snapshotStep ii s = Inr s'"
  shows "s_isPodDaemon s' = s_isPodDaemon s
     \<and> set (pat_alivePods s) \<subseteq> set (pat_alivePods s')
     \<and> set (pat_snapshot s') \<subseteq> set (pat_snapshot s) \<union> trackedKey s ` snd ` set (s_currentIntercepts s)"
proof -
  from snapshotStep_cases[OF assms] obtain ic s3 where
    ic: "map_of (s_currentIntercepts s) (ii_Id ii) = Some ic"
    and d: "s' = s3 \<or> s' = startAccess (snapshotError s ii) (podAccessOf ic) s3"
    and p: "s_isPodDaemon s3 = s_isPodDaemon s" "pat_alivePods s3 = pat_alivePods s"
      "pat_snapshot s3 = pat_snapshot s" by blast
  from ic have "(ii_Id ii, ic) \<in> set (s_currentIntercepts s)" by (rule map_of_SomeD)
  then have "snd (ii_Id ii, ic) \<in> snd ` set (s_currentIntercepts s)" by (rule imageI)
  then have m: "trackedKey s ic \<in> trackedKey s ` snd ` set (s_currentIntercepts s)" by simp
  from d show ?thesis
  proof
    assume "s' = s3"
    with p show ?thesis by auto
  next
    assume s': "s' = startAccess (snapshotError s ii) (podAccessOf ic) s3"
    from startAccess_pat[of "snapshotError s ii" "podAccessOf ic" s3] p
    have "s_isPodDaemon s' = s_isPodDaemon s" "set (pat_alivePods s) \<subseteq> set (pat_alivePods s')"
      "set (pat_snapshot s') \<subseteq> insert (trackedKey s ic) (set (pat_snapshot s))"
      unfolding s' by (simp_all add: trackedKey_def)
    with m show ?thesis by auto
  qed
qed

lemma snapshotLoop_trace:
  "snapshotLoop iis s = Inr s' \<Longrightarrow>
   (\<exists>added. s_trace s' = s_trace s @ added \<and> (\<forall>e \<in> set added. reconcilerEvent e))
   \<and> s_currentIntercepts s' = s_currentIntercepts s"
proof (induction iis arbitrary: s)
  case Nil
  then show ?case by simp
next
  case (Cons ii iis)
  show ?case
  proof (cases "ii_Disposition ii = WAITING")
    case True
    with Cons show ?thesis by simp
  next
    case False
    with Cons.prems obtain s1 where st: "snapshotStep ii s = Inr s1" and l: "snapshotLoop iis s1 = Inr s'"
      by (auto split: sum.splits)
    from snapshotStep_trace[OF st] obtain a1 where
      a1: "s_trace s1 = s_trace s @ a1" "\<forall>e \<in> set a1. reconcilerEvent e"
      and c1: "s_currentIntercepts s1 = s_currentIntercepts s" by blast
    from Cons.IH[OF l] obtain a2 where
      a2: "s_trace s' = s_trace s1 @ a2" "\<forall>e \<in> set a2. reconcilerEvent e"
      and c2: "s_currentIntercepts s' = s_currentIntercepts s1" by blast
    have "s_trace s' = s_trace s @ (a1 @ a2) \<and> (\<forall>e \<in> set (a1 @ a2). reconcilerEvent e)"
      using a1 a2 by auto
    moreover have "s_currentIntercepts s' = s_currentIntercepts s" using c1 c2 by simp
    ultimately show ?thesis by blast
  qed
qed

lemma snapshotLoop_pat:
  "snapshotLoop iis s = Inr s' \<Longrightarrow>
   s_isPodDaemon s' = s_isPodDaemon s
   \<and> set (pat_alivePods s) \<subseteq> set (pat_alivePods s')
   \<and> set (pat_snapshot s') \<subseteq> set (pat_snapshot s) \<union> trackedKey s ` snd ` set (s_currentIntercepts s)"
proof (induction iis arbitrary: s)
  case Nil
  then show ?case by simp
next
  case (Cons ii iis)
  show ?case
  proof (cases "ii_Disposition ii = WAITING")
    case True
    with Cons show ?thesis by simp
  next
    case False
    with Cons.prems obtain s1 where st: "snapshotStep ii s = Inr s1" and l: "snapshotLoop iis s1 = Inr s'"
      by (auto split: sum.splits)
    from snapshotStep_trace[OF st] have c1: "s_currentIntercepts s1 = s_currentIntercepts s" by blast
    from snapshotStep_pat[OF st] have
      p1: "s_isPodDaemon s1 = s_isPodDaemon s" "set (pat_alivePods s) \<subseteq> set (pat_alivePods s1)"
      "set (pat_snapshot s1) \<subseteq> set (pat_snapshot s) \<union> trackedKey s ` snd ` set (s_currentIntercepts s)"
      by simp_all
    from p1(1) have tk: "trackedKey s1 = trackedKey s" by (simp add: trackedKey_def fun_eq_iff)
    from Cons.IH[OF l] have
      p2: "s_isPodDaemon s' = s_isPodDaemon s1" "set (pat_alivePods s1) \<subseteq> set (pat_alivePods s')"
      "set (pat_snapshot s') \<subseteq> set (pat_snapshot s1) \<union> trackedKey s1 ` snd ` set (s_currentIntercepts s1)"
      by simp_all
    have "s_isPodDaemon s' = s_isPodDaemon s" using p1(1) p2(1) by simp
    moreover have "set (pat_alivePods s) \<subseteq> set (pat_alivePods s')" using p1(2) p2(2) by blast
    moreover have "set (pat_snapshot s') \<subseteq> set (pat_snapshot s) \<union> trackedKey s ` snd ` set (s_currentIntercepts s)"
      using p1(3) p2(3) unfolding tk c1 by blast
    ultimately show ?thesis by blast
  qed
qed

lemma stops_mem:
  "k \<in> set ks \<Longrightarrow>
   \<exists>pre post. concat (map (\<lambda>k. [EvPatStop k, EvPatWait k]) ks) = pre @ EvPatStop k # EvPatWait k # post"
proof -
  assume "k \<in> set ks"
  then obtain xs ys where "ks = xs @ k # ys" by (auto dest: split_list)
  then have "concat (map (\<lambda>k. [EvPatStop k, EvPatWait k]) ks)
      = concat (map (\<lambda>k. [EvPatStop k, EvPatWait k]) xs) @ EvPatStop k # EvPatWait k
          # concat (map (\<lambda>k. [EvPatStop k, EvPatWait k]) ys)" by simp
  then show ?thesis by blast
qed


text \<open>One call of handleInterceptSnapshot: the effects of setCurrentIntercepts, the pass
  over the records, and the stops of cancelUnwanted.\<close>

lemma handleInterceptSnapshot_pass:
  assumes "handleInterceptSnapshot nrm iis s = Inr (s' :: 'm session)"
  shows "\<exists>a1 a2 (s2 :: 'm session). s_trace s' = s_trace s @ a1 @ (EvPatInit # a2)
            @ concat (map (\<lambda>k. [EvPatStop k, EvPatWait k]) (unwanted s2))
     \<and> (\<forall>e \<in> set a1. setEvent e)
     \<and> (\<forall>(k, ic) \<in> set (s_currentIntercepts s).
           k \<notin> ii_Id ` set iis \<longrightarrow> EvCancel (ic_scope ic) \<in> set a1)
     \<and> (\<forall>e \<in> set a2. reconcilerEvent e)
     \<and> set (pat_alivePods s) \<subseteq> set (pat_alivePods s2)
     \<and> set (pat_snapshot s2) \<subseteq> trackedKey s' ` snd ` set (s_currentIntercepts s')
     \<and> pat_alivePods s' = filter (\<lambda>k. k \<in> set (pat_snapshot s2)) (pat_alivePods s2)
     \<and> s_currentIntercepts s' = s_currentIntercepts (setCurrentIntercepts nrm iis s)"
proof -
  let ?s1 = "setCurrentIntercepts nrm iis s"
  from assms obtain s2 where l: "snapshotLoop iis (initSnapshot ?s1) = Inr s2"
    and s': "s' = cancelUnwanted s2"
    by (auto simp: handleInterceptSnapshot_def split: sum.splits)
  from setCurrentIntercepts_trace_set[of nrm iis s] obtain a1 where
    a1: "s_trace ?s1 = s_trace s @ a1" "\<forall>e \<in> set a1. setEvent e"
    "\<forall>(k, ic) \<in> set (s_currentIntercepts s). k \<notin> ii_Id ` set iis \<longrightarrow> EvCancel (ic_scope ic) \<in> set a1"
    by blast
  from snapshotLoop_trace[OF l] obtain a2 where
    a2: "s_trace s2 = s_trace (initSnapshot ?s1) @ a2" "\<forall>e \<in> set a2. reconcilerEvent e"
    and c2: "s_currentIntercepts s2 = s_currentIntercepts (initSnapshot ?s1)" by blast
  from snapshotLoop_pat[OF l] have
    p2: "s_isPodDaemon s2 = s_isPodDaemon (initSnapshot ?s1)"
    "set (pat_alivePods (initSnapshot ?s1)) \<subseteq> set (pat_alivePods s2)"
    "set (pat_snapshot s2) \<subseteq> set (pat_snapshot (initSnapshot ?s1))
        \<union> trackedKey (initSnapshot ?s1) ` snd ` set (s_currentIntercepts (initSnapshot ?s1))"
    by simp_all
  have i: "s_trace (initSnapshot ?s1) = s_trace ?s1 @ [EvPatInit]" "pat_snapshot (initSnapshot ?s1) = []"
    "pat_alivePods (initSnapshot ?s1) = pat_alivePods ?s1"
    "s_currentIntercepts (initSnapshot ?s1) = s_currentIntercepts ?s1"
    "s_isPodDaemon (initSnapshot ?s1) = s_isPodDaemon ?s1"
    by (simp_all add: initSnapshot_def emit_def)
  have c: "s_trace s' = s_trace s2 @ concat (map (\<lambda>k. [EvPatStop k, EvPatWait k]) (unwanted s2))"
    "pat_alivePods s' = filter (\<lambda>k. k \<in> set (pat_snapshot s2)) (pat_alivePods s2)"
    "s_currentIntercepts s' = s_currentIntercepts s2" "s_isPodDaemon s' = s_isPodDaemon s2"
    unfolding s' by (simp_all add: cancelUnwanted_def emit_def)
  have tk: "trackedKey s' = trackedKey (initSnapshot ?s1)"
    using c(4) p2(1) by (simp add: trackedKey_def fun_eq_iff)
  have 1: "s_trace s' = s_trace s @ a1 @ (EvPatInit # a2)
            @ concat (map (\<lambda>k. [EvPatStop k, EvPatWait k]) (unwanted s2))"
    using a1(1) a2(1) i(1) c(1) by simp
  have 5: "set (pat_alivePods s) \<subseteq> set (pat_alivePods s2)"
    using p2(2) i(3) setCurrentIntercepts_pat[of nrm iis s] by simp
  have 6: "set (pat_snapshot s2) \<subseteq> trackedKey s' ` snd ` set (s_currentIntercepts s')"
    using p2(3) i(2) c(3) c2 tk by simp
  have 8: "s_currentIntercepts s' = s_currentIntercepts ?s1" using c(3) c2 i(4) by simp
  from 1 a1(2) a1(3) a2(2) 5 6 c(2) 8 show ?thesis by (intro exI conjI) assumption+
qed




subsection \<open>The waiter registry\<close>

lemma sendsTo_append: "sendsTo ch (xs @ ys) = sendsTo ch xs + sendsTo ch ys"
  by (induction ch xs rule: sendsTo.induct) auto

lemma sendsTo_setEvents: "\<forall>e \<in> set evs. setEvent e \<Longrightarrow> sendsTo ch evs = 0"
  by (induction ch evs rule: sendsTo.induct) auto

lemma waitersOn_delete_le: "waitersOn ch (AList.delete k ws) \<le> waitersOn ch ws"
  by (induction ws) (auto simp: waitersOn_def)

lemma waitersOn_delete_less:
  "map_of ws k = Some w \<Longrightarrow> aw_waitCh w = ch \<Longrightarrow> waitersOn ch (AList.delete k ws) < waitersOn ch ws"
proof (induction ws)
  case Nil
  then show ?case by simp
next
  case (Cons p ws)
  obtain k' w' where p: "p = (k', w')" by (cases p)
  show ?case
  proof (cases "k' = k")
    case True
    with Cons.prems p have "w' = w" by simp
    with True p Cons.prems(2) waitersOn_delete_le[of ch k ws] show ?thesis
      by (simp add: waitersOn_def)
  next
    case False
    with Cons p show ?thesis by (simp add: waitersOn_def)
  qed
qed

lemma map_of_delete_None: "map_of al k' = None \<Longrightarrow> map_of (AList.delete k al) k' = None"
  by (induction al) auto

lemma map_of_delete_self: "map_of (AList.delete k al) k = None"
  by (induction al) auto

text \<open>The three ways an iteration can go for a record that is not WAITING.\<close>

lemma snapshotStep_no_waiter:
  assumes "map_of (s_currentIntercepts s) (ii_Id ii) = Some ic"
    and "map_of (s_interceptWaiters s) (spec_Name (ii_Spec ii)) = None"
  shows "snapshotStep ii s
     = Inr (startAccess (snapshotError s ii) (podAccessOf ic) (emit [EvEnsureAccess (podAccessOf ic)] s))"
  using assms by (simp add: snapshotStep_def Let_def)

lemma snapshotStep_sent:
  assumes "map_of (s_currentIntercepts s) (ii_Id ii) = Some ic"
    and "map_of (s_interceptWaiters s) (spec_Name (ii_Spec ii)) = Some w"
    and "map_of (s_chans s) (aw_waitCh w) = Some c"
    and "\<not> ch_closed c" and "length (ch_buf c) < ch_cap c"
  shows "snapshotStep ii s =
     (let ir = \<lparr> ir_intercept = ic, ir_mountsDone = podAccessOf ic, ir_err = snapshotError s ii \<rparr>;
          s3 = emit [EvDeleteWaiter (spec_Name (ii_Spec ii)), EvEnsureAccess (podAccessOf ic),
                     EvSend (aw_waitCh w) ir]
                 (s \<lparr> s_interceptWaiters := AList.delete (spec_Name (ii_Spec ii)) (s_interceptWaiters s),
                      s_chans := AList.update (aw_waitCh w) (c \<lparr> ch_buf := ch_buf c @ [ir] \<rparr>) (s_chans s) \<rparr>)
      in if snapshotError s ii \<noteq> None then Inr s3
         else Inr (startAccess None (podAccessOf ic) s3))"
  using assms by (simp add: snapshotStep_def trySend_def emit_def Let_def)

lemma snapshotStep_dropped:
  assumes "map_of (s_currentIntercepts s) (ii_Id ii) = Some ic"
    and "map_of (s_interceptWaiters s) (spec_Name (ii_Spec ii)) = Some w"
    and "map_of (s_chans s) (aw_waitCh w) = None
         \<or> (\<exists>c. map_of (s_chans s) (aw_waitCh w) = Some c \<and> \<not> ch_closed c \<and> ch_cap c \<le> length (ch_buf c))"
  shows "snapshotStep ii s =
     Inr (startAccess (snapshotError s ii) (podAccessOf ic)
            (emit [EvDeleteWaiter (spec_Name (ii_Spec ii)), EvEnsureAccess (podAccessOf ic),
                   EvUnableToPropagate (ii_Id ii)]
               (s \<lparr> s_interceptWaiters := AList.delete (spec_Name (ii_Spec ii)) (s_interceptWaiters s) \<rparr>)))"
  using assms by (auto simp: snapshotStep_def trySend_def emit_def Let_def)

lemma delete_absent: "map_of al k = None \<Longrightarrow> AList.delete k al = al"
  by (induction al) auto

lemma startAccess_quiet:
  "(\<exists>added. s_trace (startAccess err pa s) = s_trace s @ added
       \<and> sendsTo ch added = 0 \<and> EvUnableToPropagate k \<notin> set added)
   \<and> s_interceptWaiters (startAccess err pa s) = s_interceptWaiters s
   \<and> s_chans (startAccess err pa s) = s_chans s"
  by (cases err) (simp_all add: startAccess_def start_def emit_def Let_def)

lemma startAccess_waiters:
  "s_interceptWaiters (startAccess err pa s) = s_interceptWaiters s"
  "s_chans (startAccess err pa s) = s_chans s"
  by (cases err; simp add: startAccess_def start_def emit_def Let_def)+

text \<open>An iteration leaves the registry without the waiter of the record's name and touches
  no other waiter.\<close>

lemma snapshotStep_waiters:
  assumes "snapshotStep ii s = Inr s'"
  shows "s_interceptWaiters s' = AList.delete (spec_Name (ii_Spec ii)) (s_interceptWaiters s)"
proof -
  from assms obtain ic where ic: "map_of (s_currentIntercepts s) (ii_Id ii) = Some ic"
    by (auto simp: snapshotStep_def split: option.splits)
  let ?name = "spec_Name (ii_Spec ii)"
  show ?thesis
  proof (cases "map_of (s_interceptWaiters s) ?name")
    case None
    from snapshotStep_no_waiter[OF ic None] assms
    have "s' = startAccess (snapshotError s ii) (podAccessOf ic) (emit [EvEnsureAccess (podAccessOf ic)] s)"
      by simp
    then have "s_interceptWaiters s' = s_interceptWaiters s"
      by (simp add: emit_def startAccess_waiters)
    with None show ?thesis by (simp add: delete_absent)
  next
    case (Some w)
    show ?thesis
    proof (cases "map_of (s_chans s) (aw_waitCh w)")
      case None
      then have "map_of (s_chans s) (aw_waitCh w) = None
         \<or> (\<exists>c. map_of (s_chans s) (aw_waitCh w) = Some c \<and> \<not> ch_closed c \<and> ch_cap c \<le> length (ch_buf c))"
        by simp
      from snapshotStep_dropped[OF ic Some this] assms show ?thesis
        by (auto simp: emit_def startAccess_waiters)
    next
      case (Some c)
      note c = this
      show ?thesis
      proof (cases "ch_closed c")
        case True
        with ic \<open>map_of (s_interceptWaiters s) ?name = Some w\<close> c assms show ?thesis
          by (simp add: snapshotStep_def trySend_def Let_def emit_def)
      next
        case False
        show ?thesis
        proof (cases "length (ch_buf c) < ch_cap c")
          case True
          from snapshotStep_sent[OF ic \<open>map_of (s_interceptWaiters s) ?name = Some w\<close> c False True] assms
          show ?thesis by (auto simp: emit_def Let_def startAccess_waiters split: if_splits)
        next
          case nr: False
          with c False have "map_of (s_chans s) (aw_waitCh w) = None
            \<or> (\<exists>c. map_of (s_chans s) (aw_waitCh w) = Some c \<and> \<not> ch_closed c \<and> ch_cap c \<le> length (ch_buf c))"
            by simp
          from snapshotStep_dropped[OF ic \<open>map_of (s_interceptWaiters s) ?name = Some w\<close> this] assms
          show ?thesis by (auto simp: emit_def startAccess_waiters)
        qed
      qed
    qed
  qed
qed

lemma startAccess_sendsTo:
  "sendsTo ch (s_trace (startAccess err pa s)) = sendsTo ch (s_trace s)"
  by (cases err) (simp_all add: startAccess_def start_def emit_def Let_def sendsTo_append)

lemma startAccess_unable:
  "EvUnableToPropagate k \<in> set (s_trace (startAccess err pa s))
     \<longleftrightarrow> EvUnableToPropagate k \<in> set (s_trace s)"
  by (cases err) (simp_all add: startAccess_def start_def emit_def Let_def)

text \<open>No waiter under the record's name: nothing is sent and nothing is logged about it.\<close>

lemma fire_no_waiter:
  assumes "map_of (s_currentIntercepts s) (ii_Id ii) = Some ic"
    and "map_of (s_interceptWaiters s) (spec_Name (ii_Spec ii)) = None"
  shows "\<exists>s'. snapshotStep ii s = Inr s'
     \<and> s_interceptWaiters s' = s_interceptWaiters s \<and> s_chans s' = s_chans s
     \<and> (\<forall>ch. sendsTo ch (s_trace s') = sendsTo ch (s_trace s))
     \<and> (\<forall>k. EvUnableToPropagate k \<in> set (s_trace s') \<longleftrightarrow> EvUnableToPropagate k \<in> set (s_trace s))"
  unfolding snapshotStep_no_waiter[OF assms]
  by (simp add: startAccess_waiters startAccess_sendsTo startAccess_unable emit_def sendsTo_append)

text \<open>A waiter whose channel has room: it leaves the registry and the result is in the
  channel's buffer.\<close>

lemma fire_sent:
  assumes "map_of (s_currentIntercepts s) (ii_Id ii) = Some ic"
    and "map_of (s_interceptWaiters s) (spec_Name (ii_Spec ii)) = Some w"
    and "map_of (s_chans s) (aw_waitCh w) = Some c"
    and "\<not> ch_closed c" and "length (ch_buf c) < ch_cap c"
  shows "\<exists>s'. snapshotStep ii s = Inr s'
     \<and> map_of (s_interceptWaiters s') (spec_Name (ii_Spec ii)) = None
     \<and> map_of (s_chans s') (aw_waitCh w)
         = Some (c \<lparr> ch_buf := ch_buf c @ [\<lparr> ir_intercept = ic, ir_mountsDone = podAccessOf ic,
                                            ir_err = snapshotError s ii \<rparr>] \<rparr>)
     \<and> sendsTo (aw_waitCh w) (s_trace s') = Suc (sendsTo (aw_waitCh w) (s_trace s))
     \<and> (\<forall>k. EvUnableToPropagate k \<in> set (s_trace s') \<longleftrightarrow> EvUnableToPropagate k \<in> set (s_trace s))"
  unfolding snapshotStep_sent[OF assms]
  by (simp add: Let_def startAccess_waiters startAccess_sendsTo startAccess_unable emit_def
      sendsTo_append map_of_delete_self AList.update_conv')

text \<open>A waiter whose channel cannot take the value: it leaves the registry, the value is
  dropped and that is logged; the iteration goes on as it does without a waiter.\<close>

lemma fire_dropped:
  assumes "map_of (s_currentIntercepts s) (ii_Id ii) = Some ic"
    and "map_of (s_interceptWaiters s) (spec_Name (ii_Spec ii)) = Some w"
    and "map_of (s_chans s) (aw_waitCh w) = None
         \<or> (\<exists>c. map_of (s_chans s) (aw_waitCh w) = Some c \<and> \<not> ch_closed c \<and> ch_cap c \<le> length (ch_buf c))"
  shows "\<exists>s'. snapshotStep ii s = Inr s'
     \<and> map_of (s_interceptWaiters s') (spec_Name (ii_Spec ii)) = None
     \<and> s_chans s' = s_chans s
     \<and> (\<forall>ch. sendsTo ch (s_trace s') = sendsTo ch (s_trace s))
     \<and> EvUnableToPropagate (ii_Id ii) \<in> set (s_trace s')"
  unfolding snapshotStep_dropped[OF assms]
  by (simp add: startAccess_waiters startAccess_sendsTo startAccess_unable emit_def
      sendsTo_append map_of_delete_self)

text \<open>Sends on a channel and waiters that refer to it: an iteration never raises their
  sum, so a waiter is served at most once.\<close>

lemma snapshotStep_count:
  assumes "snapshotStep ii s = Inr s'"
  shows "sendsTo ch (s_trace s') + waitersOn ch (s_interceptWaiters s')
       \<le> sendsTo ch (s_trace s) + waitersOn ch (s_interceptWaiters s)"
proof -
  from assms obtain ic where ic: "map_of (s_currentIntercepts s) (ii_Id ii) = Some ic"
    by (auto simp: snapshotStep_def split: option.splits)
  let ?name = "spec_Name (ii_Spec ii)"
  show ?thesis
  proof (cases "map_of (s_interceptWaiters s) ?name")
    case None
    from fire_no_waiter[OF ic None] assms show ?thesis by auto
  next
    case (Some w)
    note w = this
    have le: "waitersOn ch (AList.delete ?name (s_interceptWaiters s)) \<le> waitersOn ch (s_interceptWaiters s)"
      by (rule waitersOn_delete_le)
    have wa: "s_interceptWaiters s' = AList.delete ?name (s_interceptWaiters s)"
      by (rule snapshotStep_waiters[OF assms])
    have "(\<exists>c. map_of (s_chans s) (aw_waitCh w) = Some c \<and> ch_closed c)
       \<or> (\<exists>c. map_of (s_chans s) (aw_waitCh w) = Some c \<and> \<not> ch_closed c \<and> length (ch_buf c) < ch_cap c)
       \<or> (map_of (s_chans s) (aw_waitCh w) = None
         \<or> (\<exists>c. map_of (s_chans s) (aw_waitCh w) = Some c \<and> \<not> ch_closed c \<and> ch_cap c \<le> length (ch_buf c)))"
      by (cases "map_of (s_chans s) (aw_waitCh w)") (auto simp: not_less)
    then consider (closed) c where "map_of (s_chans s) (aw_waitCh w) = Some c" "ch_closed c"
      | (room) c where "map_of (s_chans s) (aw_waitCh w) = Some c" "\<not> ch_closed c"
          "length (ch_buf c) < ch_cap c"
      | (full) "map_of (s_chans s) (aw_waitCh w) = None
         \<or> (\<exists>c. map_of (s_chans s) (aw_waitCh w) = Some c \<and> \<not> ch_closed c \<and> ch_cap c \<le> length (ch_buf c))"
      by blast
    then show ?thesis
    proof cases
      case closed
      with ic w assms show ?thesis
        by (simp add: snapshotStep_def trySend_def Let_def emit_def)
    next
      case full
      from fire_dropped[OF ic w full] assms have "sendsTo ch (s_trace s') = sendsTo ch (s_trace s)"
        by auto
      with le wa show ?thesis by simp
    next
      case room
      let ?ir = "\<lparr> ir_intercept = ic, ir_mountsDone = podAccessOf ic, ir_err = snapshotError s ii \<rparr>"
      let ?s3 = "emit [EvDeleteWaiter ?name, EvEnsureAccess (podAccessOf ic), EvSend (aw_waitCh w) ?ir]
                 (s \<lparr> s_interceptWaiters := AList.delete ?name (s_interceptWaiters s),
                      s_chans := AList.update (aw_waitCh w) (c \<lparr> ch_buf := ch_buf c @ [?ir] \<rparr>) (s_chans s) \<rparr>)"
      from snapshotStep_sent[OF ic w room] assms
      have "s' = ?s3 \<or> s' = startAccess None (podAccessOf ic) ?s3"
        by (auto simp: Let_def split: if_splits)
      then have st: "sendsTo ch (s_trace s') = sendsTo ch (s_trace ?s3)"
        by (auto simp: startAccess_sendsTo)
      have s3: "sendsTo ch (s_trace ?s3)
          = sendsTo ch (s_trace s) + (if aw_waitCh w = ch then 1 else 0)"
        by (simp add: emit_def sendsTo_append)
      show ?thesis
      proof (cases "aw_waitCh w = ch")
        case True
        from waitersOn_delete_less[OF w True]
        show ?thesis using st s3 wa True by simp
      next
        case False
        with st s3 wa le show ?thesis by simp
      qed
    qed
  qed
qed

lemma snapshotLoop_count:
  "snapshotLoop iis s = Inr s' \<Longrightarrow>
   sendsTo ch (s_trace s') + waitersOn ch (s_interceptWaiters s')
     \<le> sendsTo ch (s_trace s) + waitersOn ch (s_interceptWaiters s)"
proof (induction iis arbitrary: s)
  case Nil
  then show ?case by simp
next
  case (Cons ii iis)
  show ?case
  proof (cases "ii_Disposition ii = WAITING")
    case True
    with Cons show ?thesis by simp
  next
    case False
    with Cons.prems obtain s1 where st: "snapshotStep ii s = Inr s1" and l: "snapshotLoop iis s1 = Inr s'"
      by (auto split: sum.splits)
    from snapshotStep_count[OF st, of ch] Cons.IH[OF l] show ?thesis by simp
  qed
qed

text \<open>After the loop no waiter is registered under the name of a record that is out of
  WAITING.\<close>

lemma snapshotLoop_fired:
  "snapshotLoop iis s = Inr s' \<Longrightarrow>
   (\<forall>name. map_of (s_interceptWaiters s) name = None \<longrightarrow> map_of (s_interceptWaiters s') name = None)
   \<and> (\<forall>ii \<in> set iis. ii_Disposition ii \<noteq> WAITING \<longrightarrow>
          map_of (s_interceptWaiters s') (spec_Name (ii_Spec ii)) = None)"
proof (induction iis arbitrary: s)
  case Nil
  then show ?case by simp
next
  case (Cons ii iis)
  show ?case
  proof (cases "ii_Disposition ii = WAITING")
    case True
    with Cons.prems have "snapshotLoop iis s = Inr s'" by simp
    from Cons.IH[OF this] True show ?thesis by simp
  next
    case False
    with Cons.prems obtain s1 where st: "snapshotStep ii s = Inr s1" and l: "snapshotLoop iis s1 = Inr s'"
      by (auto split: sum.splits)
    from snapshotStep_waiters[OF st]
    have w1: "s_interceptWaiters s1 = AList.delete (spec_Name (ii_Spec ii)) (s_interceptWaiters s)" .
    from Cons.IH[OF l] have
      ih1: "\<forall>name. map_of (s_interceptWaiters s1) name = None \<longrightarrow> map_of (s_interceptWaiters s') name = None"
      and ih2: "\<forall>ii \<in> set iis. ii_Disposition ii \<noteq> WAITING \<longrightarrow>
          map_of (s_interceptWaiters s') (spec_Name (ii_Spec ii)) = None" by simp_all
    have a: "\<forall>name. map_of (s_interceptWaiters s) name = None \<longrightarrow> map_of (s_interceptWaiters s') name = None"
      using ih1 w1 by (simp add: map_of_delete_None)
    have "map_of (s_interceptWaiters s1) (spec_Name (ii_Spec ii)) = None"
      unfolding w1 by (rule map_of_delete_self)
    with ih1 have b: "map_of (s_interceptWaiters s') (spec_Name (ii_Spec ii)) = None" by simp
    from a b ih2 show ?thesis by simp
  qed
qed

lemma sendsTo_stops: "sendsTo ch (concat (map (\<lambda>k. [EvPatStop k, EvPatWait k]) ks)) = 0"
  by (induction ks) auto

lemma handleInterceptSnapshot_count:
  assumes "handleInterceptSnapshot nrm iis s = Inr s'"
  shows "sendsTo ch (s_trace s') + waitersOn ch (s_interceptWaiters s')
       \<le> sendsTo ch (s_trace s) + waitersOn ch (s_interceptWaiters s)"
proof -
  let ?s1 = "setCurrentIntercepts nrm iis s"
  from assms obtain s2 where l: "snapshotLoop iis (initSnapshot ?s1) = Inr s2"
    and s': "s' = cancelUnwanted s2"
    by (auto simp: handleInterceptSnapshot_def split: sum.splits)
  from setCurrentIntercepts_trace_set[of nrm iis s] obtain a1 where
    a1: "s_trace ?s1 = s_trace s @ a1" "\<forall>e \<in> set a1. setEvent e" by blast
  have 1: "sendsTo ch (s_trace (initSnapshot ?s1)) = sendsTo ch (s_trace s)"
    using a1 sendsTo_setEvents[OF a1(2), of ch] by (simp add: initSnapshot_def emit_def sendsTo_append)
  have 2: "s_interceptWaiters (initSnapshot ?s1) = s_interceptWaiters s"
    using setCurrentIntercepts_fields[of nrm iis s] by (simp add: initSnapshot_def emit_def)
  have 3: "sendsTo ch (s_trace s') = sendsTo ch (s_trace s2)" "s_interceptWaiters s' = s_interceptWaiters s2"
    unfolding s' by (simp_all add: cancelUnwanted_def emit_def sendsTo_append sendsTo_stops)
  from snapshotLoop_count[OF l, of ch] 1 2 3 show ?thesis by simp
qed

lemma handleInterceptSnapshot_fired:
  assumes "handleInterceptSnapshot nrm iis s = Inr s'"
  shows "\<forall>ii \<in> set iis. ii_Disposition ii \<noteq> WAITING \<longrightarrow>
          map_of (s_interceptWaiters s') (spec_Name (ii_Spec ii)) = None"
proof -
  let ?s1 = "setCurrentIntercepts nrm iis s"
  from assms obtain s2 where l: "snapshotLoop iis (initSnapshot ?s1) = Inr s2"
    and s': "s' = cancelUnwanted s2"
    by (auto simp: handleInterceptSnapshot_def split: sum.splits)
  have "s_interceptWaiters s' = s_interceptWaiters s2"
    unfolding s' by (simp add: cancelUnwanted_def emit_def)
  with snapshotLoop_fired[OF l] show ?thesis by simp
qed

lemma registerWaiter_stored:
  "fst (registerWaiter ir s) = s_next s
   \<and> map_of (s_interceptWaiters (snd (registerWaiter ir s))) (spec_Name (cir_Spec ir))
       = Some \<lparr> aw_mountPoint = cir_MountPoint ir, aw_mountPort = cir_LocalMountPort ir,
                aw_readOnly = cir_MountReadOnly ir, aw_waitCh = s_next s \<rparr>
   \<and> map_of (s_chans (snd (registerWaiter ir s))) (s_next s)
       = Some \<lparr> ch_cap = 2, ch_buf = [], ch_closed = False \<rparr>
   \<and> s_trace (snd (registerWaiter ir s)) = s_trace s @ [EvStoreWaiter (spec_Name (cir_Spec ir)) (s_next s)]"
  by (simp add: registerWaiter_def Let_def emit_def AList.update_conv')

lemma unregisterWaiter_gone:
  "map_of (s_interceptWaiters (unregisterWaiter name ch s)) name = None"
  by (auto simp: unregisterWaiter_def emit_def map_of_delete_self)

lemma AddIntercept_unregisters:
  assumes "AddIntercept ct ep canStop tI tA ir result created reconciler outs m removed s = Some (res, s')"
  shows "map_of (s_interceptWaiters s') (spec_Name (cir_Spec ir)) = None"
  using assms
  by (auto simp: AddIntercept_def Let_def unregisterWaiter_gone split: prod.splits sum.splits option.splits)

lemma AddIntercept_registers_first:
  assumes "AddIntercept ct ep canStop tI tA ir result created id outs m removed s = Some (res, s')"
  shows "\<exists>rest. s_trace s' = s_trace s @ EvStoreWaiter (spec_Name (cir_Spec ir)) (s_next s)
            # EvManagerCreate (WithTimeout CallerCtx tI) (cir_Spec ir) # rest"
proof -
  let ?name = "spec_Name (cir_Spec ir)"
  let ?c = "WithTimeout CallerCtx tI"
  let ?s2 = "emit [EvManagerCreate ?c (cir_Spec ir)] (snd (registerWaiter ir s))"
  have t2: "s_trace ?s2 = s_trace s @ [EvStoreWaiter ?name (s_next s), EvManagerCreate ?c (cir_Spec ir)]"
    using registerWaiter_stored[of ir s] by (simp add: emit_def)
  from assms have "s' = unregisterWaiter ?name (s_next s) ?s2
      \<or> (\<exists>n. s' = unregisterWaiter ?name (s_next s)
                 (snd (RemoveIntercept canStop tA removed (removalCtx ?c) n ?s2)))"
    using registerWaiter_stored[of ir s]
    by (auto simp: AddIntercept_def Let_def split: prod.splits sum.splits option.splits if_splits)
  then show ?thesis
  proof
    assume s': "s' = unregisterWaiter ?name (s_next s) ?s2"
    from unregisterWaiter_trace[of ?name "s_next s" ?s2] obtain post where
      "s_trace s' = s_trace ?s2 @ post" unfolding s' by blast
    with t2 show ?thesis by simp
  next
    assume "\<exists>n. s' = unregisterWaiter ?name (s_next s)
                 (snd (RemoveIntercept canStop tA removed (removalCtx ?c) n ?s2))"
    then obtain n where s': "s' = unregisterWaiter ?name (s_next s)
                 (snd (RemoveIntercept canStop tA removed (removalCtx ?c) n ?s2))" by blast
    let ?s3 = "snd (RemoveIntercept canStop tA removed (removalCtx ?c) n ?s2)"
    from RemoveIntercept_trace[of canStop tA removed "removalCtx ?c" n ?s2] obtain p1 where
      p1: "s_trace ?s3 = s_trace ?s2 @ EvRemoveIntercept (removalCtx ?c) n # p1" by blast
    from unregisterWaiter_trace[of ?name "s_next s" ?s3] obtain p2 where
      "s_trace s' = s_trace ?s3 @ p2" unfolding s' by blast
    with p1 t2 show ?thesis by simp
  qed
qed

lemma sampleGaveUp_state:
  "sampleGaveUp = (mkSession [(''i1'', mkIntercept 11 (sampleInfo WAITING))])
      \<lparr> s_chans := [(10, \<lparr> ch_cap = 2, ch_buf = [], ch_closed = True \<rparr>)],
        s_next := 11,
        s_trace := [EvStoreWaiter ''a'' 10,
           EvManagerCreate (WithTimeout CallerCtx 30000) (mkSpec ''a'' ''default'' ''127.0.0.1'' 8080),
           EvRemoveIntercept (removalCtx (WithTimeout CallerCtx 30000)) ''a'',
           EvCancel 11, EvWait 11,
           EvManagerRemove (WithTimeout (removalCtx (WithTimeout CallerCtx 30000)) 15000) ''a'',
           EvDeleteWaiter ''a'', EvClose 10] \<rparr>"
  by (simp add: sampleGaveUp_def AddIntercept_def registerWaiter_def unregisterWaiter_def
      RemoveIntercept_def removeIntercept_def stopHandler_def sampleReconciler_def sampleRequest_def
      sampleCheckTimeout_def mkSession_def mkIntercept_def sampleInfo_def mkInfo_def mkSpec_def
      emit_def Let_def)

text \<open>
  C4, as stated, fails in its last part. A call of AddIntercept that gives up removes its
  waiter from the registry (and closes the channel). When the record then leaves WAITING,
  the pass over the snapshot finds no waiter under its name: no value is sent and
  "unable to propagate" is not logged.
\<close>

theorem waiter_gave_up_counterexample:
  "s_interceptWaiters sampleGaveUp = []
   \<and> s_chans sampleGaveUp = [(10, \<lparr> ch_cap = 2, ch_buf = [], ch_closed = True \<rparr>)]
   \<and> handleInterceptSnapshot noMatcher [sampleInfo ACTIVE] sampleGaveUp
       = Inr (sampleGaveUp \<lparr>
           s_currentIntercepts := [(''i1'', mkIntercept 11 (sampleInfo ACTIVE))],
           s_trace := s_trace sampleGaveUp
              @ [EvPatInit, EvEnsureAccess (podAccessOf (mkIntercept 11 (sampleInfo ACTIVE))),
                 EvPatStart (podAccessOf (mkIntercept 11 (sampleInfo ACTIVE)))],
           pat_alivePods := [accessKey (podAccessOf (mkIntercept 11 (sampleInfo ACTIVE)))],
           pat_snapshot := [accessKey (podAccessOf (mkIntercept 11 (sampleInfo ACTIVE)))] \<rparr>)
   \<and> EvUnableToPropagate ''i1'' \<notin> set (s_trace sampleGaveUp
              @ [EvPatInit, EvEnsureAccess (podAccessOf (mkIntercept 11 (sampleInfo ACTIVE))),
                 EvPatStart (podAccessOf (mkIntercept 11 (sampleInfo ACTIVE)))])
   \<and> sendsTo 10 (s_trace sampleGaveUp
              @ [EvPatInit, EvEnsureAccess (podAccessOf (mkIntercept 11 (sampleInfo ACTIVE))),
                 EvPatStart (podAccessOf (mkIntercept 11 (sampleInfo ACTIVE)))]) = 0"
proof -
  have 1: "s_interceptWaiters sampleGaveUp = []"
    by (simp add: sampleGaveUp_state mkSession_def)
  have 2: "s_chans sampleGaveUp = [(10, \<lparr> ch_cap = 2, ch_buf = [], ch_closed = True \<rparr>)]"
    by (simp add: sampleGaveUp_state mkSession_def)
  have 3: "handleInterceptSnapshot noMatcher [sampleInfo ACTIVE] sampleGaveUp
       = Inr (sampleGaveUp \<lparr>
           s_currentIntercepts := [(''i1'', mkIntercept 11 (sampleInfo ACTIVE))],
           s_trace := s_trace sampleGaveUp
              @ [EvPatInit, EvEnsureAccess (podAccessOf (mkIntercept 11 (sampleInfo ACTIVE))),
                 EvPatStart (podAccessOf (mkIntercept 11 (sampleInfo ACTIVE)))],
           pat_alivePods := [accessKey (podAccessOf (mkIntercept 11 (sampleInfo ACTIVE)))],
           pat_snapshot := [accessKey (podAccessOf (mkIntercept 11 (sampleInfo ACTIVE)))] \<rparr>)"
    unfolding sampleGaveUp_state
    by (simp add: handleInterceptSnapshot_def setCurrentIntercepts_def reconcileAPIServers_def
        initSnapshot_def cancelUnwanted_def unwanted_def snapshotStep_def startAccess_def start_def
        snapshotError_def podAccessOf_def accessKey_def noMatcher_def
        mkSession_def mkIntercept_def sampleInfo_def mkInfo_def mkSpec_def emit_def agentAPIPort_def
        Let_def)
  have 4: "EvUnableToPropagate ''i1'' \<notin> set (s_trace sampleGaveUp
              @ [EvPatInit, EvEnsureAccess (podAccessOf (mkIntercept 11 (sampleInfo ACTIVE))),
                 EvPatStart (podAccessOf (mkIntercept 11 (sampleInfo ACTIVE)))])"
    by (simp add: sampleGaveUp_state mkSession_def)
  have 5: "sendsTo 10 (s_trace sampleGaveUp
              @ [EvPatInit, EvEnsureAccess (podAccessOf (mkIntercept 11 (sampleInfo ACTIVE))),
                 EvPatStart (podAccessOf (mkIntercept 11 (sampleInfo ACTIVE)))]) = 0"
    by (simp add: sampleGaveUp_state mkSession_def)
  from 1 2 3 4 5 show ?thesis by (intro conjI)
qed

text \<open>
  C4 (amended). AddIntercept stores the waiter under the intercept's name, with a fresh
  channel of capacity two, before it issues the create request, and when it returns the
  waiter is no longer registered. When a record leaves WAITING, the waiter registered
  under its name is taken out of the registry and the result is sent without blocking: it
  is appended to the buffer of the channel when there is room; when the channel cannot
  take it, it is dropped, "unable to propagate" is logged and the iteration goes on. When
  no waiter is registered under the name (the caller has given up, or never waited),
  nothing is sent and nothing is logged about it. Over a whole snapshot the number of
  values sent on a channel plus the number of registered waiters that refer to it never
  grows, so a registered waiter receives at most one value, and afterwards no waiter is
  left under the name of a record that is out of WAITING.
\<close>

theorem waiter_registry_amended:
  "fst (registerWaiter ir s) = s_next s
   \<and> map_of (s_interceptWaiters (snd (registerWaiter ir s))) (spec_Name (cir_Spec ir))
       = Some \<lparr> aw_mountPoint = cir_MountPoint ir, aw_mountPort = cir_LocalMountPort ir,
                aw_readOnly = cir_MountReadOnly ir, aw_waitCh = s_next s \<rparr>
   \<and> map_of (s_chans (snd (registerWaiter ir s))) (s_next s)
       = Some \<lparr> ch_cap = 2, ch_buf = [], ch_closed = False \<rparr>
   \<and> (\<forall>res s'. AddIntercept ct ep canStop tI tA ir result created id outs m removed s = Some (res, s')
         \<longrightarrow> (\<exists>rest. s_trace s' = s_trace s @ EvStoreWaiter (spec_Name (cir_Spec ir)) (s_next s)
                  # EvManagerCreate (WithTimeout CallerCtx tI) (cir_Spec ir) # rest))
   \<and> (\<forall>res s'. AddIntercept ct ep canStop tI tA ir result created reconciler outs m removed s
                  = Some (res, s')
         \<longrightarrow> map_of (s_interceptWaiters s') (spec_Name (cir_Spec ir)) = None)
   \<and> (\<forall>ic w c. map_of (s_currentIntercepts s) (ii_Id ii) = Some ic
         \<and> map_of (s_interceptWaiters s) (spec_Name (ii_Spec ii)) = Some w
         \<and> map_of (s_chans s) (aw_waitCh w) = Some c \<and> \<not> ch_closed c \<and> length (ch_buf c) < ch_cap c
         \<longrightarrow> (\<exists>s'. snapshotStep ii s = Inr s'
               \<and> map_of (s_interceptWaiters s') (spec_Name (ii_Spec ii)) = None
               \<and> map_of (s_chans s') (aw_waitCh w)
                   = Some (c \<lparr> ch_buf := ch_buf c @ [\<lparr> ir_intercept = ic, ir_mountsDone = podAccessOf ic,
                                                      ir_err = snapshotError s ii \<rparr>] \<rparr>)
               \<and> sendsTo (aw_waitCh w) (s_trace s') = Suc (sendsTo (aw_waitCh w) (s_trace s))
               \<and> (\<forall>k. EvUnableToPropagate k \<in> set (s_trace s')
                      \<longleftrightarrow> EvUnableToPropagate k \<in> set (s_trace s))))
   \<and> (\<forall>ic w. map_of (s_currentIntercepts s) (ii_Id ii) = Some ic
         \<and> map_of (s_interceptWaiters s) (spec_Name (ii_Spec ii)) = Some w
         \<and> (map_of (s_chans s) (aw_waitCh w) = None
            \<or> (\<exists>c. map_of (s_chans s) (aw_waitCh w) = Some c \<and> \<not> ch_closed c
                  \<and> ch_cap c \<le> length (ch_buf c)))
         \<longrightarrow> (\<exists>s'. snapshotStep ii s = Inr s'
               \<and> map_of (s_interceptWaiters s') (spec_Name (ii_Spec ii)) = None
               \<and> s_chans s' = s_chans s
               \<and> (\<forall>ch. sendsTo ch (s_trace s') = sendsTo ch (s_trace s))
               \<and> EvUnableToPropagate (ii_Id ii) \<in> set (s_trace s')))
   \<and> (\<forall>ic. map_of (s_currentIntercepts s) (ii_Id ii) = Some ic
         \<and> map_of (s_interceptWaiters s) (spec_Name (ii_Spec ii)) = None
         \<longrightarrow> (\<exists>s'. snapshotStep ii s = Inr s'
               \<and> s_interceptWaiters s' = s_interceptWaiters s \<and> s_chans s' = s_chans s
               \<and> (\<forall>ch. sendsTo ch (s_trace s') = sendsTo ch (s_trace s))
               \<and> (\<forall>k. EvUnableToPropagate k \<in> set (s_trace s')
                      \<longleftrightarrow> EvUnableToPropagate k \<in> set (s_trace s))))
   \<and> (\<forall>s' ch. handleInterceptSnapshot nrm iis s = Inr s' \<longrightarrow>
         sendsTo ch (s_trace s') + waitersOn ch (s_interceptWaiters s')
           \<le> sendsTo ch (s_trace s) + waitersOn ch (s_interceptWaiters s)
         \<and> (\<forall>r \<in> set iis. ii_Disposition r \<noteq> WAITING \<longrightarrow>
               map_of (s_interceptWaiters s') (spec_Name (ii_Spec r)) = None))"
proof -
  note r = registerWaiter_stored[of ir s]
  have 4: "\<forall>res s'. AddIntercept ct ep canStop tI tA ir result created id outs m removed s = Some (res, s')
         \<longrightarrow> (\<exists>rest. s_trace s' = s_trace s @ EvStoreWaiter (spec_Name (cir_Spec ir)) (s_next s)
                  # EvManagerCreate (WithTimeout CallerCtx tI) (cir_Spec ir) # rest)"
    using AddIntercept_registers_first by blast
  have 5: "\<forall>res s'. AddIntercept ct ep canStop tI tA ir result created reconciler outs m removed s
                  = Some (res, s')
         \<longrightarrow> map_of (s_interceptWaiters s') (spec_Name (cir_Spec ir)) = None"
    using AddIntercept_unregisters by blast
  have 6: "\<forall>ic w c. map_of (s_currentIntercepts s) (ii_Id ii) = Some ic
         \<and> map_of (s_interceptWaiters s) (spec_Name (ii_Spec ii)) = Some w
         \<and> map_of (s_chans s) (aw_waitCh w) = Some c \<and> \<not> ch_closed c \<and> length (ch_buf c) < ch_cap c
         \<longrightarrow> (\<exists>s'. snapshotStep ii s = Inr s'
               \<and> map_of (s_interceptWaiters s') (spec_Name (ii_Spec ii)) = None
               \<and> map_of (s_chans s') (aw_waitCh w)
                   = Some (c \<lparr> ch_buf := ch_buf c @ [\<lparr> ir_intercept = ic, ir_mountsDone = podAccessOf ic,
                                                      ir_err = snapshotError s ii \<rparr>] \<rparr>)
               \<and> sendsTo (aw_waitCh w) (s_trace s') = Suc (sendsTo (aw_waitCh w) (s_trace s))
               \<and> (\<forall>k. EvUnableToPropagate k \<in> set (s_trace s')
                      \<longleftrightarrow> EvUnableToPropagate k \<in> set (s_trace s)))"
  proof (intro allI impI, elim conjE)
    fix ic w c
    assume "map_of (s_currentIntercepts s) (ii_Id ii) = Some ic"
      "map_of (s_interceptWaiters s) (spec_Name (ii_Spec ii)) = Some w"
      "map_of (s_chans s) (aw_waitCh w) = Some c" "\<not> ch_closed c" "length (ch_buf c) < ch_cap c"
    then show "\<exists>s'. snapshotStep ii s = Inr s'
               \<and> map_of (s_interceptWaiters s') (spec_Name (ii_Spec ii)) = None
               \<and> map_of (s_chans s') (aw_waitCh w)
                   = Some (c \<lparr> ch_buf := ch_buf c @ [\<lparr> ir_intercept = ic, ir_mountsDone = podAccessOf ic,
                                                      ir_err = snapshotError s ii \<rparr>] \<rparr>)
               \<and> sendsTo (aw_waitCh w) (s_trace s') = Suc (sendsTo (aw_waitCh w) (s_trace s))
               \<and> (\<forall>k. EvUnableToPropagate k \<in> set (s_trace s')
                      \<longleftrightarrow> EvUnableToPropagate k \<in> set (s_trace s))"
      by (rule fire_sent)
  qed
  have 7: "\<forall>ic w. map_of (s_currentIntercepts s) (ii_Id ii) = Some ic
         \<and> map_of (s_interceptWaiters s) (spec_Name (ii_Spec ii)) = Some w
         \<and> (map_of (s_chans s) (aw_waitCh w) = None
            \<or> (\<exists>c. map_of (s_chans s) (aw_waitCh w) = Some c \<and> \<not> ch_closed c
                  \<and> ch_cap c \<le> length (ch_buf c)))
         \<longrightarrow> (\<exists>s'. snapshotStep ii s = Inr s'
               \<and> map_of (s_interceptWaiters s') (spec_Name (ii_Spec ii)) = None
               \<and> s_chans s' = s_chans s
               \<and> (\<forall>ch. sendsTo ch (s_trace s') = sendsTo ch (s_trace s))
               \<and> EvUnableToPropagate (ii_Id ii) \<in> set (s_trace s'))"
  proof (intro allI impI, elim conjE)
    fix ic w
    assume "map_of (s_currentIntercepts s) (ii_Id ii) = Some ic"
      "map_of (s_interceptWaiters s) (spec_Name (ii_Spec ii)) = Some w"
      "map_of (s_chans s) (aw_waitCh w) = None
            \<or> (\<exists>c. map_of (s_chans s) (aw_waitCh w) = Some c \<and> \<not> ch_closed c
                  \<and> ch_cap c \<le> length (ch_buf c))"
    then show "\<exists>s'. snapshotStep ii s = Inr s'
               \<and> map_of (s_interceptWaiters s') (spec_Name (ii_Spec ii)) = None
               \<and> s_chans s' = s_chans s
               \<and> (\<forall>ch. sendsTo ch (s_trace s') = sendsTo ch (s_trace s))
               \<and> EvUnableToPropagate (ii_Id ii) \<in> set (s_trace s')"
      by (rule fire_dropped)
  qed
  have 8: "\<forall>ic. map_of (s_currentIntercepts s) (ii_Id ii) = Some ic
         \<and> map_of (s_interceptWaiters s) (spec_Name (ii_Spec ii)) = None
         \<longrightarrow> (\<exists>s'. snapshotStep ii s = Inr s'
               \<and> s_interceptWaiters s' = s_interceptWaiters s \<and> s_chans s' = s_chans s
               \<and> (\<forall>ch. sendsTo ch (s_trace s') = sendsTo ch (s_trace s))
               \<and> (\<forall>k. EvUnableToPropagate k \<in> set (s_trace s')
                      \<longleftrightarrow> EvUnableToPropagate k \<in> set (s_trace s)))"
  proof (intro allI impI, elim conjE)
    fix ic
    assume "map_of (s_currentIntercepts s) (ii_Id ii) = Some ic"
      "map_of (s_interceptWaiters s) (spec_Name (ii_Spec ii)) = None"
    then show "\<exists>s'. snapshotStep ii s = Inr s'
               \<and> s_interceptWaiters s' = s_interceptWaiters s \<and> s_chans s' = s_chans s
               \<and> (\<forall>ch. sendsTo ch (s_trace s') = sendsTo ch (s_trace s))
               \<and> (\<forall>k. EvUnableToPropagate k \<in> set (s_trace s')
                      \<longleftrightarrow> EvUnableToPropagate k \<in> set (s_trace s))"
      by (rule fire_no_waiter)
  qed
  have 9: "\<forall>s' ch. handleInterceptSnapshot nrm iis s = Inr s' \<longrightarrow>
         sendsTo ch (s_trace s') + waitersOn ch (s_interceptWaiters s')
           \<le> sendsTo ch (s_trace s) + waitersOn ch (s_interceptWaiters s)
         \<and> (\<forall>r \<in> set iis. ii_Disposition r \<noteq> WAITING \<longrightarrow>
               map_of (s_interceptWaiters s') (spec_Name (ii_Spec r)) = None)"
    using handleInterceptSnapshot_count handleInterceptSnapshot_fired by blast
  from r[THEN conjunct1] r[THEN conjunct2, THEN conjunct1]
    r[THEN conjunct2, THEN conjunct2, THEN conjunct1] 4 5 6 7 8 9
  show ?thesis by (intro conjI) assumption+
qed

theorem waiter_registry_amended_witness:
  "map_of (s_interceptWaiters (snd (registerWaiter (sampleRequest ''a'')
        (mkSession [(''i1'', mkIntercept 11 (sampleInfo ACTIVE))])))) ''a''
     = Some \<lparr> aw_mountPoint = ''/tmp/mnt'', aw_mountPort = 0, aw_readOnly = False, aw_waitCh = 10 \<rparr>
   \<and> (\<exists>s'. snapshotStep (sampleInfo ACTIVE)
              (snd (registerWaiter (sampleRequest ''a'')
                 (mkSession [(''i1'', mkIntercept 11 (sampleInfo ACTIVE))]))) = Inr s'
          \<and> map_of (s_interceptWaiters s') ''a'' = None
          \<and> sendsTo 10 (s_trace s') = Suc 0)"
proof -
  let ?s0 = "mkSession [(''i1'', mkIntercept 11 (sampleInfo ACTIVE))]"
  let ?S = "snd (registerWaiter (sampleRequest ''a'') ?s0)"
  let ?w = "\<lparr> aw_mountPoint = ''/tmp/mnt'', aw_mountPort = 0, aw_readOnly = False, aw_waitCh = 10 \<rparr>"
  let ?c = "\<lparr> ch_cap = 2, ch_buf = [], ch_closed = False \<rparr>"
  from waiter_registry_amended[where ir="sampleRequest ''a''" and s="?s0", THEN conjunct2, THEN conjunct1]
  have g1: "map_of (s_interceptWaiters ?S) ''a'' = Some ?w"
    by (simp add: sampleRequest_def mkSpec_def mkSession_def)
  have c: "map_of (s_chans ?S) 10 = Some ?c"
    by (simp add: registerWaiter_def Let_def emit_def mkSession_def)
  have t: "s_trace ?S = [EvStoreWaiter ''a'' 10]"
    by (simp add: registerWaiter_def Let_def emit_def mkSession_def sampleRequest_def mkSpec_def)
  have p: "map_of (s_currentIntercepts ?S) (ii_Id (sampleInfo ACTIVE)) = Some (mkIntercept 11 (sampleInfo ACTIVE))
         \<and> map_of (s_interceptWaiters ?S) (spec_Name (ii_Spec (sampleInfo ACTIVE))) = Some ?w
         \<and> map_of (s_chans ?S) (aw_waitCh ?w) = Some ?c \<and> \<not> ch_closed ?c \<and> length (ch_buf ?c) < ch_cap ?c"
    using g1 c
    by (simp add: registerWaiter_def Let_def emit_def mkSession_def sampleInfo_def mkInfo_def mkSpec_def)
  from waiter_registry_amended[where s="?S" and ii="sampleInfo ACTIVE",
      THEN conjunct2, THEN conjunct2, THEN conjunct2, THEN conjunct2, THEN conjunct2, THEN conjunct1,
      rule_format, OF p]
  obtain s' where s': "snapshotStep (sampleInfo ACTIVE) ?S = Inr s'"
    "map_of (s_interceptWaiters s') (spec_Name (ii_Spec (sampleInfo ACTIVE))) = None"
    "sendsTo (aw_waitCh ?w) (s_trace s') = Suc (sendsTo (aw_waitCh ?w) (s_trace ?S))" by blast
  from s'(2) have a: "map_of (s_interceptWaiters s') ''a'' = None"
    by (simp add: sampleInfo_def mkInfo_def mkSpec_def)
  from s'(3) t have b: "sendsTo 10 (s_trace s') = Suc 0" by simp
  from s'(1) a b have "\<exists>s'. snapshotStep (sampleInfo ACTIVE) ?S = Inr s'
          \<and> map_of (s_interceptWaiters s') ''a'' = None
          \<and> sendsTo 10 (s_trace s') = Suc 0" by blast
  with g1 show ?thesis by (intro conjI)
qed

subsection \<open>watchInterceptsLoop and watchInterceptsHandler\<close>

text \<open>Reconciling an empty snapshot never fails: every scope of the current set is
  cancelled, every running pod access session is stopped and awaited, and nothing is left
  in the current set or in the tracker.\<close>

lemma handleInterceptSnapshot_empty:
  "\<exists>s0 added. handleInterceptSnapshot nrm [] s = Inr (s0 :: 'm session)
     \<and> s_trace s0 = s_trace s @ added
     \<and> (\<forall>(k, ic) \<in> set (s_currentIntercepts s). EvCancel (ic_scope ic) \<in> set added)
     \<and> (\<forall>k \<in> set (pat_alivePods s). \<exists>pre post. added = pre @ EvPatStop k # EvPatWait k # post)
     \<and> s_currentIntercepts s0 = [] \<and> pat_alivePods s0 = []"
proof -
  obtain s0 where h: "handleInterceptSnapshot nrm [] s = Inr s0"
    by (simp add: handleInterceptSnapshot_def)
  from handleInterceptSnapshot_pass[OF h] obtain a1 a2 and s2 :: "'m session" where
    t: "s_trace s0 = s_trace s @ a1 @ (EvPatInit # a2)
            @ concat (map (\<lambda>k. [EvPatStop k, EvPatWait k]) (unwanted s2))"
    and e1: "\<forall>e \<in> set a1. setEvent e"
    and cn: "\<forall>(k, ic) \<in> set (s_currentIntercepts s).
           k \<notin> ii_Id ` set ([] :: manager_InterceptInfo list) \<longrightarrow> EvCancel (ic_scope ic) \<in> set a1"
    and e2: "\<forall>e \<in> set a2. reconcilerEvent e"
    and al: "set (pat_alivePods s) \<subseteq> set (pat_alivePods s2)"
    and sn: "set (pat_snapshot s2) \<subseteq> trackedKey s0 ` snd ` set (s_currentIntercepts s0)"
    and al': "pat_alivePods s0 = filter (\<lambda>k. k \<in> set (pat_snapshot s2)) (pat_alivePods s2)"
    and cu: "s_currentIntercepts s0 = s_currentIntercepts (setCurrentIntercepts nrm [] s)"
    by blast
  from setCurrentIntercepts_keys[of nrm "[]" s] cu have c0: "s_currentIntercepts s0 = []" by simp
  with sn have sn0: "pat_snapshot s2 = []" by simp
  with al' have a0: "pat_alivePods s0 = []" by simp
  let ?added = "a1 @ (EvPatInit # a2) @ concat (map (\<lambda>k. [EvPatStop k, EvPatWait k]) (unwanted s2))"
  have 1: "\<forall>(k, ic) \<in> set (s_currentIntercepts s). EvCancel (ic_scope ic) \<in> set ?added"
    using cn by auto
  have 2: "\<forall>k \<in> set (pat_alivePods s). \<exists>pre post. ?added = pre @ EvPatStop k # EvPatWait k # post"
  proof
    fix k
    assume "k \<in> set (pat_alivePods s)"
    with al sn0 have "k \<in> set (unwanted s2)" by (auto simp: unwanted_def)
    from stops_mem[OF this] obtain pre post where
      "concat (map (\<lambda>k. [EvPatStop k, EvPatWait k]) (unwanted s2)) = pre @ EvPatStop k # EvPatWait k # post"
      by blast
    then have "?added = (a1 @ (EvPatInit # a2) @ pre) @ EvPatStop k # EvPatWait k # post" by simp
    then show "\<exists>pre post. ?added = pre @ EvPatStop k # EvPatWait k # post" by blast
  qed
  from h t 1 2 c0 a0 show ?thesis by blast
qed

text \<open>An attempt that fails at once: the stream cannot be opened, or the first receive
  fails with an error other than the end of the stream.\<close>

lemma watchInterceptsLoop_fails:
  assumes "at_dialErr a \<noteq> None \<or> (\<exists>m. at_items a = [RecvError (RecvFailed m)])"
  shows "\<exists>err s'. watchInterceptsLoop nrm a s = Some (Inr (Some err, s'))"
proof (cases "at_dialErr a")
  case (Some e)
  then show ?thesis by (simp add: watchInterceptsLoop_def)
next
  case None
  with assms obtain m where m: "at_items a = [RecvError (RecvFailed m)]" by auto
  from handleInterceptSnapshot_empty[of nrm "newPodAccessTracker (emit [EvManagerWatch] s)"]
  obtain s0 where "handleInterceptSnapshot nrm [] (newPodAccessTracker (emit [EvManagerWatch] s)) = Inr s0"
    by blast
  with None m show ?thesis by (simp add: watchInterceptsLoop_def)
qed

lemma runWithRetry_fails:
  assumes "\<forall>a \<in> set fails. \<forall>s. \<exists>err s'. f a s = Some (Inr (Some err, s'))"
  shows "\<exists>s'. runWithRetry f (fails @ rest) s = runWithRetry f rest s'"
  using assms
proof (induction fails arbitrary: s)
  case Nil
  show ?case by auto
next
  case (Cons a fails)
  from Cons.prems have "\<forall>s. \<exists>err s'. f a s = Some (Inr (Some err, s'))" by simp
  then obtain err s1 where a: "f a s = Some (Inr (Some err, s1))" by blast
  from Cons.prems have "\<forall>a \<in> set fails. \<forall>s. \<exists>err s'. f a s = Some (Inr (Some err, s'))" by simp
  from Cons.IH[OF this, of "emit [EvLogError err] s1"] a show ?case by simp
qed

text \<open>
  C9. When \<open>Recv\<close> fails, the loop first reconciles the empty snapshot, which cannot fail:
  every scope of the current set is cancelled, every running pod access session is stopped
  and awaited, and the current set and the tracker end up empty. Then the loop returns nil
  when the context is done or the error is the end of the stream, and the wrapped error
  otherwise. The handler ends when an attempt returns nil; when an attempt returns an
  error it logs the error and starts the next attempt, any number of times: after any
  list of failing attempts the handler is still running and goes on with the attempts that
  follow. A snapshot received by a later attempt makes the current set hold exactly its
  ids again.
\<close>

theorem watchIntercepts_recv_failure:
  "(\<exists>s0 added. handleInterceptSnapshot nrm [] s = Inr s0
       \<and> s_trace s0 = s_trace s @ added
       \<and> (\<forall>(k, ic) \<in> set (s_currentIntercepts s). EvCancel (ic_scope ic) \<in> set added)
       \<and> (\<forall>k \<in> set (pat_alivePods s). \<exists>pre post. added = pre @ EvPatStop k # EvPatWait k # post)
       \<and> s_currentIntercepts s0 = [] \<and> pat_alivePods s0 = []
       \<and> recvLoop nrm cancelled (RecvError e # rest) s
           = Some (Inr (if cancelled \<or> e = EOF then None
                        else Some (PlainError (''manager.WatchIntercepts recv: ''
                               @ (case e of RecvFailed m \<Rightarrow> m | EOF \<Rightarrow> ''EOF''))), s0)))
   \<and> (\<forall>s'. watchInterceptsLoop nrm a s = Some (Inr (None, s'))
         \<longrightarrow> watchInterceptsHandler nrm (a # as) s = Some (Inr s'))
   \<and> (\<forall>err s'. watchInterceptsLoop nrm a s = Some (Inr (Some err, s'))
         \<longrightarrow> watchInterceptsHandler nrm (a # as) s
               = watchInterceptsHandler nrm as (emit [EvLogError err] s'))
   \<and> ((\<forall>a \<in> set fails. at_dialErr a \<noteq> None \<or> (\<exists>m. at_items a = [RecvError (RecvFailed m)]))
         \<longrightarrow> watchInterceptsHandler nrm fails s = None
             \<and> (\<exists>s'. watchInterceptsHandler nrm (fails @ later) s = watchInterceptsHandler nrm later s'))
   \<and> (\<forall>s1 s'. handleInterceptSnapshot nrm iis s1 = Inr s'
         \<longrightarrow> fst ` set (s_currentIntercepts s') = ii_Id ` set iis)"
proof -
  from handleInterceptSnapshot_empty[of nrm s] obtain s0 added where
    h: "handleInterceptSnapshot nrm [] s = Inr s0"
    and p: "s_trace s0 = s_trace s @ added"
      "\<forall>(k, ic) \<in> set (s_currentIntercepts s). EvCancel (ic_scope ic) \<in> set added"
      "\<forall>k \<in> set (pat_alivePods s). \<exists>pre post. added = pre @ EvPatStop k # EvPatWait k # post"
      "s_currentIntercepts s0 = []" "pat_alivePods s0 = []" by blast
  have r: "recvLoop nrm cancelled (RecvError e # rest) s
           = Some (Inr (if cancelled \<or> e = EOF then None
                        else Some (PlainError (''manager.WatchIntercepts recv: ''
                               @ (case e of RecvFailed m \<Rightarrow> m | EOF \<Rightarrow> ''EOF''))), s0))"
    using h by simp
  from h p r have 1: "\<exists>s0 added. handleInterceptSnapshot nrm [] s = Inr s0
       \<and> s_trace s0 = s_trace s @ added
       \<and> (\<forall>(k, ic) \<in> set (s_currentIntercepts s). EvCancel (ic_scope ic) \<in> set added)
       \<and> (\<forall>k \<in> set (pat_alivePods s). \<exists>pre post. added = pre @ EvPatStop k # EvPatWait k # post)
       \<and> s_currentIntercepts s0 = [] \<and> pat_alivePods s0 = []
       \<and> recvLoop nrm cancelled (RecvError e # rest) s
           = Some (Inr (if cancelled \<or> e = EOF then None
                        else Some (PlainError (''manager.WatchIntercepts recv: ''
                               @ (case e of RecvFailed m \<Rightarrow> m | EOF \<Rightarrow> ''EOF''))), s0))"
    by (intro exI conjI) assumption+
  have 2: "\<forall>s'. watchInterceptsLoop nrm a s = Some (Inr (None, s'))
         \<longrightarrow> watchInterceptsHandler nrm (a # as) s = Some (Inr s')"
    by (simp add: watchInterceptsHandler_def)
  have 3: "\<forall>err s'. watchInterceptsLoop nrm a s = Some (Inr (Some err, s'))
         \<longrightarrow> watchInterceptsHandler nrm (a # as) s
               = watchInterceptsHandler nrm as (emit [EvLogError err] s')"
    by (simp add: watchInterceptsHandler_def)
  have 4: "(\<forall>a \<in> set fails. at_dialErr a \<noteq> None \<or> (\<exists>m. at_items a = [RecvError (RecvFailed m)]))
         \<longrightarrow> watchInterceptsHandler nrm fails s = None
             \<and> (\<exists>s'. watchInterceptsHandler nrm (fails @ later) s = watchInterceptsHandler nrm later s')"
  proof
    assume "\<forall>a \<in> set fails. at_dialErr a \<noteq> None \<or> (\<exists>m. at_items a = [RecvError (RecvFailed m)])"
    then have f: "\<forall>a \<in> set fails. \<forall>s. \<exists>err s'. watchInterceptsLoop nrm a s = Some (Inr (Some err, s'))"
      using watchInterceptsLoop_fails by blast
    from runWithRetry_fails[OF f, of "[]" s] have "watchInterceptsHandler nrm fails s = None"
      by (simp add: watchInterceptsHandler_def)
    moreover from runWithRetry_fails[OF f, of later s]
    have "\<exists>s'. watchInterceptsHandler nrm (fails @ later) s = watchInterceptsHandler nrm later s'"
      by (simp add: watchInterceptsHandler_def)
    ultimately show "watchInterceptsHandler nrm fails s = None
             \<and> (\<exists>s'. watchInterceptsHandler nrm (fails @ later) s = watchInterceptsHandler nrm later s')"
      by simp
  qed
  have 5: "\<forall>s1 s'. handleInterceptSnapshot nrm iis s1 = Inr s'
         \<longrightarrow> fst ` set (s_currentIntercepts s') = ii_Id ` set iis"
  proof (intro allI impI)
    fix s1 s' :: "'a session"
    assume "handleInterceptSnapshot nrm iis s1 = Inr s'"
    from handleInterceptSnapshot_pass[OF this]
    have "s_currentIntercepts s' = s_currentIntercepts (setCurrentIntercepts nrm iis s1)" by blast
    then show "fst ` set (s_currentIntercepts s') = ii_Id ` set iis"
      by (simp add: setCurrentIntercepts_keys)
  qed
  from 1 2 3 4 5 show ?thesis by (intro conjI) assumption+
qed

theorem watchIntercepts_recv_failure_witness:
  "watchInterceptsHandler noMatcher
      [\<lparr> at_dialErr = None, at_items = [RecvError (RecvFailed ''unavailable'')] \<rparr>]
      (mkSession [(''i1'', mkIntercept 1 (sampleInfo ACTIVE))]) = None
   \<and> (\<exists>s'. watchInterceptsHandler noMatcher
          [\<lparr> at_dialErr = None, at_items = [RecvError (RecvFailed ''unavailable'')] \<rparr>,
           \<lparr> at_dialErr = None, at_items = [RecvError EOF] \<rparr>]
          (mkSession [(''i1'', mkIntercept 1 (sampleInfo ACTIVE))]) = Some (Inr s')
        \<and> s_currentIntercepts s' = [])"
proof -
  let ?fail = "\<lparr> at_dialErr = None, at_items = [RecvError (RecvFailed ''unavailable'')] \<rparr>"
  let ?ok = "\<lparr> at_dialErr = None, at_items = [RecvError EOF] \<rparr>"
  let ?s = "mkSession [(''i1'', mkIntercept 1 (sampleInfo ACTIVE))]"
  have f: "\<forall>a \<in> set [?fail]. at_dialErr a \<noteq> None \<or> (\<exists>m. at_items a = [RecvError (RecvFailed m)])"
    by simp
  from watchIntercepts_recv_failure[where nrm=noMatcher and s="?s" and fails="[?fail]" and later="[?ok]",
      THEN conjunct2, THEN conjunct2, THEN conjunct2, THEN conjunct1, THEN mp, OF f]
  obtain s1 where g1: "watchInterceptsHandler noMatcher [?fail] ?s = None"
    and g2: "watchInterceptsHandler noMatcher ([?fail] @ [?ok]) ?s = watchInterceptsHandler noMatcher [?ok] s1"
    by blast
  from watchIntercepts_recv_failure[where nrm=noMatcher
      and s="newPodAccessTracker (emit [EvManagerWatch] s1)" and e=EOF and rest="[]" and cancelled=False,
      THEN conjunct1]
  obtain s0 where r: "recvLoop noMatcher False [RecvError EOF] (newPodAccessTracker (emit [EvManagerWatch] s1))
      = Some (Inr (None, s0))" and c: "s_currentIntercepts s0 = []"
    by auto
  from r have "watchInterceptsHandler noMatcher [?ok] s1 = Some (Inr s0)"
    by (simp add: watchInterceptsHandler_def watchInterceptsLoop_def)
  with g2 c have "\<exists>s'. watchInterceptsHandler noMatcher [?fail, ?ok] ?s = Some (Inr s')
        \<and> s_currentIntercepts s' = []" by simp
  with g1 show ?thesis by (intro conjI)
qed

end
